theory Spec2Isabelle
  imports Main "HOL-Library.Multiset"
begin

section \<open>JavaScript values\<close>

text \<open>
  The store keeps JSON-like documents. A value is one of the JavaScript values the
  engine inspects with \<open>type_of\<close>. Numbers are the integers plus \<open>NaN\<close>; a regular
  expression is its printed form together with the set of strings it matches somewhere
  (what \<open>String.prototype.match\<close> reports as non-null). An object is the list of its own
  enumerable properties in enumeration order, with distinct keys. Dates, functions,
  fractional numbers and the infinities are outside the value type. A number \<open>JNum n\<close> stands
  for the double \<open>n\<close>, so it is a value of the program only when \<open>n\<close> is an integer that a
  double holds exactly (every integer up to \<open>2^53\<close> in magnitude is one). A pattern with the
  sticky flag, whose matching depends on where the last match ended, has no such set of
  strings and is outside the model. Nested objects are values without identity: an object
  that occurs twice in a query or in a document is two equal values here, so queries and
  documents in which one object is shared are outside the model as well; the one exception
  is an object that is the value of several clauses of a query, for which
  \<open>clause_loop_shared\<close> keeps the values of the clauses under references.
\<close>

datatype jsval =
    JUndef
  | JNull
  | JBool bool
  | JNum int
  | JNaN
  | JStr string
  | JRegex string "string \<Rightarrow> bool"
  | JArr "jsval list"
  | JObj "(string \<times> jsval) list"

type_synonym doc = "(string \<times> jsval) list"

datatype error = TypeError

text \<open>The outcome of a call: it returns a value or throws.\<close>

datatype 'a outcome = Returns 'a | Throws error

datatype jstype =
  T_undefined | T_boolean | T_number | T_string | T_object | T_array | T_regexp

text \<open>\<open>type_of\<close>: \<open>typeof\<close>, refined for arrays and regular expressions; \<open>null\<close> is an "object".\<close>

fun type_of :: "jsval \<Rightarrow> jstype" where
  "type_of JUndef = T_undefined"
| "type_of JNull = T_object"
| "type_of (JBool _) = T_boolean"
| "type_of (JNum _) = T_number"
| "type_of JNaN = T_number"
| "type_of (JStr _) = T_string"
| "type_of (JRegex _ _) = T_regexp"
| "type_of (JArr _) = T_array"
| "type_of (JObj _) = T_object"

text \<open>Truthiness (\<open>ToBoolean\<close>).\<close>

fun truthy :: "jsval \<Rightarrow> bool" where
  "truthy JUndef = False"
| "truthy JNull = False"
| "truthy (JBool b) = b"
| "truthy (JNum n) = (n \<noteq> 0)"
| "truthy JNaN = False"
| "truthy (JStr s) = (s \<noteq> [])"
| "truthy (JRegex _ _) = True"
| "truthy (JArr _) = True"
| "truthy (JObj _) = True"

subsection \<open>Conversion to strings and numbers\<close>

fun string_of_nat :: "nat \<Rightarrow> string" where
  "string_of_nat n =
     (if n < 10 then [''0123456789'' ! n]
      else string_of_nat (n div 10) @ [''0123456789'' ! (n mod 10)])"

declare string_of_nat.simps [simp del]

definition string_of_int :: "int \<Rightarrow> string" where
  "string_of_int i = (if i < 0 then CHR ''-'' # string_of_nat (nat (- i)) else string_of_nat (nat i))"

fun join_comma :: "string list \<Rightarrow> string" where
  "join_comma [] = []"
| "join_comma [s] = s"
| "join_comma (s # t # ss) = s @ '','' @ join_comma (t # ss)"

text \<open>\<open>ToString\<close>; an array prints its elements joined by commas, \<open>null\<close> and \<open>undefined\<close>
  elements as the empty string.\<close>

fun to_string :: "jsval \<Rightarrow> string" where
  "to_string JUndef = ''undefined''"
| "to_string JNull = ''null''"
| "to_string (JBool b) = (if b then ''true'' else ''false'')"
| "to_string (JNum n) = string_of_int n"
| "to_string JNaN = ''NaN''"
| "to_string (JStr s) = s"
| "to_string (JRegex src _) = src"
| "to_string (JArr xs) =
     join_comma (map (\<lambda>x. case x of JUndef \<Rightarrow> [] | JNull \<Rightarrow> [] | _ \<Rightarrow> to_string x) xs)"
| "to_string (JObj _) = ''[object Object]''"

text \<open>\<open>ToPrimitive\<close>: objects, arrays and regular expressions become their string.\<close>

fun to_primitive :: "jsval \<Rightarrow> jsval" where
  "to_primitive (JRegex src m) = JStr (to_string (JRegex src m))"
| "to_primitive (JArr xs) = JStr (to_string (JArr xs))"
| "to_primitive (JObj kvs) = JStr (to_string (JObj kvs))"
| "to_primitive v = v"

definition is_space :: "char \<Rightarrow> bool" where
  "is_space c = (c \<in> set [CHR '' '', CHR 0x09, CHR 0x0A, CHR 0x0B, CHR 0x0C, CHR 0x0D])"

definition is_digit :: "char \<Rightarrow> bool" where
  "is_digit c = (c \<in> set ''0123456789'')"

definition digits_value :: "string \<Rightarrow> int" where
  "digits_value s = foldl (\<lambda>acc c. acc * 10 + (int (of_char c) - 48)) 0 s"

definition trim :: "string \<Rightarrow> string" where
  "trim s = rev (dropWhile is_space (rev (dropWhile is_space s)))"

text \<open>The number a string denotes: the empty or blank string is 0, a decimal integer literal
  with an optional sign is its value, anything else is \<open>NaN\<close> (\<open>None\<close>). This is what
  \<open>Number\<close> gives on blank strings, on decimal integer literals and on strings that are no
  numeric literal at all. The other numeric literals (hexadecimal, octal and binary ones,
  literals with a fraction, a trailing dot or an exponent, \<open>Infinity\<close>) denote numbers that are
  outside the value type or are written in a notation not read here; on them the result
  \<open>None\<close> is not what the program computes, and no property below is stated for them.\<close>

definition string_to_number :: "string \<Rightarrow> int option" where
  "string_to_number s =
     (case trim s of
        [] \<Rightarrow> Some 0
      | c # cs \<Rightarrow>
          if c = CHR ''-'' \<and> cs \<noteq> [] \<and> list_all is_digit cs then Some (- digits_value cs)
          else if c = CHR ''+'' \<and> cs \<noteq> [] \<and> list_all is_digit cs then Some (digits_value cs)
          else if list_all is_digit (c # cs) then Some (digits_value (c # cs))
          else None)"

text \<open>\<open>ToNumber\<close>; \<open>None\<close> is \<open>NaN\<close>.\<close>

definition to_number :: "jsval \<Rightarrow> int option" where
  "to_number v =
     (case to_primitive v of
        JUndef \<Rightarrow> None
      | JNull \<Rightarrow> Some 0
      | JBool b \<Rightarrow> Some (if b then 1 else 0)
      | JNum n \<Rightarrow> Some n
      | JNaN \<Rightarrow> None
      | JStr s \<Rightarrow> string_to_number s
      | _ \<Rightarrow> None)"

definition of_number :: "int option \<Rightarrow> jsval" where
  "of_number n = (case n of None \<Rightarrow> JNaN | Some i \<Rightarrow> JNum i)"

text \<open>Values that are no number whatever the notation: \<open>undefined\<close>, \<open>NaN\<close>, and a string
  whose first character after the leading blanks is a letter other than \<open>I\<close>. A numeric
  literal starts with a digit, a sign or a dot, and \<open>Infinity\<close> is the only one that starts
  with a letter, so \<open>Number\<close> gives \<open>NaN\<close> on each of these values.\<close>

definition is_letter :: "char \<Rightarrow> bool" where
  "is_letter c = (c \<in> set ''abcdefghijklmnopqrstuvwxyzABCDEFGHIJKLMNOPQRSTUVWXYZ'')"

fun non_numeric :: "jsval \<Rightarrow> bool" where
  "non_numeric JUndef = True"
| "non_numeric JNaN = True"
| "non_numeric (JStr s) =
     (case dropWhile is_space s of [] \<Rightarrow> False | c # cs \<Rightarrow> is_letter c \<and> c \<noteq> CHR ''I'')"
| "non_numeric v = False"

subsection \<open>Comparison\<close>

fun str_lt :: "string \<Rightarrow> string \<Rightarrow> bool" where
  "str_lt [] [] = False"
| "str_lt [] (_ # _) = True"
| "str_lt (_ # _) [] = False"
| "str_lt (a # as) (b # bs) =
     (if (of_char a :: nat) < of_char b then True
      else if (of_char b :: nat) < of_char a then False
      else str_lt as bs)"

text \<open>The abstract relational comparison \<open>x < y\<close>: \<open>None\<close> is "undefined" (a \<open>NaN\<close> operand).\<close>

definition abstract_lt :: "jsval \<Rightarrow> jsval \<Rightarrow> bool option" where
  "abstract_lt x y =
     (case (to_primitive x, to_primitive y) of
        (JStr s, JStr t) \<Rightarrow> Some (str_lt s t)
      | (px, py) \<Rightarrow>
          (case (to_number px, to_number py) of
             (Some a, Some b) \<Rightarrow> Some (a < b)
           | _ \<Rightarrow> None))"

definition js_lt :: "jsval \<Rightarrow> jsval \<Rightarrow> bool" where
  "js_lt x y = (abstract_lt x y = Some True)"

definition js_gt :: "jsval \<Rightarrow> jsval \<Rightarrow> bool" where
  "js_gt x y = (abstract_lt y x = Some True)"

definition js_lte :: "jsval \<Rightarrow> jsval \<Rightarrow> bool" where
  "js_lte x y = (abstract_lt y x = Some False)"

definition js_gte :: "jsval \<Rightarrow> jsval \<Rightarrow> bool" where
  "js_gte x y = (abstract_lt x y = Some False)"

text \<open>Strict equality \<open>===\<close>. Two primitives are equal when they have the same type and
  value, \<open>NaN\<close> equals nothing. Objects, arrays and regular expressions are compared by
  identity in JavaScript; nested values have no identity here and two such operands count
  as distinct objects. That is what the program computes when the two operands were made
  separately; it is not when both are one object (a document that already holds the very
  object a later call passes in), and the properties below that depend on \<open>===\<close> are stated
  for primitive operands.\<close>

definition strict_equals :: "jsval \<Rightarrow> jsval \<Rightarrow> bool" where
  "strict_equals x y =
     (case x of
        JUndef \<Rightarrow> (case y of JUndef \<Rightarrow> True | _ \<Rightarrow> False)
      | JNull \<Rightarrow> (case y of JNull \<Rightarrow> True | _ \<Rightarrow> False)
      | JBool a \<Rightarrow> (case y of JBool b \<Rightarrow> a = b | _ \<Rightarrow> False)
      | JNum a \<Rightarrow> (case y of JNum b \<Rightarrow> a = b | _ \<Rightarrow> False)
      | JStr a \<Rightarrow> (case y of JStr b \<Rightarrow> a = b | _ \<Rightarrow> False)
      | _ \<Rightarrow> False)"

section \<open>Objects and their properties\<close>

text \<open>The own enumerable properties a \<open>for ... in\<close> loop guarded by \<open>hasOwnProperty\<close> visits:
  the fields of an object, the indices of an array or of a string.\<close>

fun own_props :: "jsval \<Rightarrow> (string \<times> jsval) list" where
  "own_props (JObj kvs) = kvs"
| "own_props (JArr xs) = zip (map string_of_nat [0..<length xs]) xs"
| "own_props (JStr s) = zip (map string_of_nat [0..<length s]) (map (\<lambda>c. JStr [c]) s)"
| "own_props _ = []"

text \<open>\<open>_firstKey\<close>: the first own key, or \<open>null\<close> (\<open>None\<close>).\<close>

definition firstKey :: "jsval \<Rightarrow> string option" where
  "firstKey O' = (case own_props O' of [] \<Rightarrow> None | (i, _) # _ \<Rightarrow> Some i)"

text \<open>\<open>row[key]\<close> on a document: the field, or \<open>undefined\<close>. Only own fields are read. In
  the program a read of a name that the document does not have itself finds what
  \<open>Object.prototype\<close> provides under the names listed in \<open>object_prototype_names\<close> (a function,
  or the prototype), so \<open>lookup\<close> is the program's read for every other name.\<close>

definition lookup :: "doc \<Rightarrow> string \<Rightarrow> jsval" where
  "lookup kvs k = (case map_of kvs k of None \<Rightarrow> JUndef | Some v \<Rightarrow> v)"

text \<open>The names every object inherits from \<open>Object.prototype\<close>.\<close>

definition object_prototype_names :: "string list" where
  "object_prototype_names =
     [''constructor'', ''hasOwnProperty'', ''isPrototypeOf'', ''propertyIsEnumerable'',
      ''toLocaleString'', ''toString'', ''valueOf'', ''__proto__'', ''__defineGetter__'',
      ''__defineSetter__'', ''__lookupGetter__'', ''__lookupSetter__'']"

text \<open>A value is ordinary when no object in it, at any depth, has a field named like an
  inherited property. On ordinary objects the guard \<open>O.hasOwnProperty(i)\<close> of the program's
  \<open>for ... in\<close> loops calls the inherited function and is true of every key visited, which
  is how \<open>own_props\<close>, \<open>firstKey\<close> and the loops below read it; an object with a field of its
  own named \<open>hasOwnProperty\<close> makes that call a fault, which the model does not have.\<close>

fun ordinary :: "jsval \<Rightarrow> bool"
  and ordinary_fields :: "(string \<times> jsval) list \<Rightarrow> bool"
  and ordinary_elements :: "jsval list \<Rightarrow> bool" where
  "ordinary (JObj kvs) = ordinary_fields kvs"
| "ordinary (JArr xs) = ordinary_elements xs"
| "ordinary JUndef = True"
| "ordinary JNull = True"
| "ordinary (JBool b) = True"
| "ordinary (JNum n) = True"
| "ordinary JNaN = True"
| "ordinary (JStr s) = True"
| "ordinary (JRegex src m) = True"
| "ordinary_fields [] = True"
| "ordinary_fields ((k, v) # kvs) =
     (k \<notin> set object_prototype_names \<and> ordinary v \<and> ordinary_fields kvs)"
| "ordinary_elements [] = True"
| "ordinary_elements (x # xs) = (ordinary x \<and> ordinary_elements xs)"

text \<open>The primitive values.\<close>

fun primitive :: "jsval \<Rightarrow> bool" where
  "primitive (JObj kvs) = False"
| "primitive (JArr xs) = False"
| "primitive (JRegex src m) = False"
| "primitive v = True"

text \<open>\<open>O[key]\<close> on any value: reading a property of \<open>null\<close> or \<open>undefined\<close> throws.\<close>

definition get_prop :: "jsval \<Rightarrow> string \<Rightarrow> jsval outcome" where
  "get_prop O' k =
     (case O' of
        JUndef \<Rightarrow> Throws TypeError
      | JNull \<Rightarrow> Throws TypeError
      | _ \<Rightarrow> Returns (lookup (own_props O') k))"

text \<open>\<open>row[key] = value\<close>: an existing field keeps its place, a new one goes last.\<close>

fun set_prop :: "doc \<Rightarrow> string \<Rightarrow> jsval \<Rightarrow> doc" where
  "set_prop [] k v = [(k, v)]"
| "set_prop ((k', v') # kvs) k v =
     (if k' = k then (k, v) # kvs else (k', v') # set_prop kvs k v)"

text \<open>\<open>delete O[key]\<close>.\<close>

fun delete_prop :: "jsval \<Rightarrow> string \<Rightarrow> jsval" where
  "delete_prop (JObj kvs) k = JObj (filter (\<lambda>(k', _). k' \<noteq> k) kvs)"
| "delete_prop v k = v"

text \<open>\<open>string.match(regexp)\<close> is non-null.\<close>

fun regexp_match :: "jsval \<Rightarrow> string \<Rightarrow> bool" where
  "regexp_match (JRegex _ m) s = m s"
| "regexp_match _ s = False"


section \<open>The collection\<close>

text \<open>
  Documents are objects with identity: the collection holds references (addresses) into an
  object store, and a matcher returns some of the references it was given. \<open>objects\<close> is
  the store, \<open>next_addr\<close> the first address not yet allocated, \<open>master\<close> the live
  sequence of the collection and \<open>id_counter\<close> its \<open>_id\<close> counter.
\<close>

type_synonym addr = nat

type_synonym heap = "addr \<Rightarrow> doc"

record db_object =
  objects :: heap
  next_addr :: addr
  master :: "addr list"
  id_counter :: jsval

section \<open>Clause classification\<close>

datatype clause_type =
    CLAUSE_NORMAL
  | CLAUSE_SUBDOCUMENT_MATCH
  | CLAUSE_CONDITIONAL
  | CLAUSE_SUBDOCUMENT
  | CLAUSE_OR
  | CLAUSE_ARRAY
  | CLAUSE_UNKNOWN

definition is_operator :: "string option \<Rightarrow> bool" where
  "is_operator fk = (fk = Some ''$gt'' \<or> fk = Some ''$gte'' \<or> fk = Some ''$lt''
                     \<or> fk = Some ''$lte'' \<or> fk = Some ''$exists'')"

definition detect_clause_type :: "string \<Rightarrow> jsval \<Rightarrow> clause_type" where
  "detect_clause_type k v =
     (case type_of v of
        T_boolean \<Rightarrow> if CHR ''.'' \<notin> set k then CLAUSE_NORMAL else CLAUSE_SUBDOCUMENT_MATCH
      | T_number \<Rightarrow> if CHR ''.'' \<notin> set k then CLAUSE_NORMAL else CLAUSE_SUBDOCUMENT_MATCH
      | T_string \<Rightarrow> if CHR ''.'' \<notin> set k then CLAUSE_NORMAL else CLAUSE_SUBDOCUMENT_MATCH
      | T_regexp \<Rightarrow> if CHR ''.'' \<notin> set k then CLAUSE_NORMAL else CLAUSE_SUBDOCUMENT_MATCH
      | T_object \<Rightarrow> if is_operator (firstKey v) then CLAUSE_CONDITIONAL else CLAUSE_SUBDOCUMENT
      | T_array \<Rightarrow> if k = ''$or'' then CLAUSE_OR else CLAUSE_ARRAY
      | T_undefined \<Rightarrow> CLAUSE_UNKNOWN)"

section \<open>Matchers\<close>

record test =
  test_key :: string
  test_value :: jsval

subsection \<open>NORMAL\<close>

text \<open>The scan of one row's keys: the row is taken at the first key equal to the test's key
  whose value matches the pattern (after conversion to a string) or is strictly equal.\<close>

fun normal_row :: "test \<Rightarrow> doc \<Rightarrow> bool" where
  "normal_row t [] = False"
| "normal_row t ((k, v) # kvs) =
     (if k = test_key t then
        (if type_of (test_value t) = T_regexp then
           (if regexp_match (test_value t) (to_string v) then True else normal_row t kvs)
         else
           (if strict_equals v (test_value t) then True else normal_row t kvs))
      else normal_row t kvs)"

definition matching_rows_NORMAL :: "heap \<Rightarrow> test \<Rightarrow> addr list \<Rightarrow> addr list" where
  "matching_rows_NORMAL h t rows = filter (\<lambda>row. normal_row t (h row)) rows"

subsection \<open>CONDITIONAL\<close>

text \<open>The scan of one row's keys for a comparison operator.\<close>

fun conditional_scan :: "string \<Rightarrow> string \<Rightarrow> jsval \<Rightarrow> doc \<Rightarrow> bool" where
  "conditional_scan cond k operand [] = False"
| "conditional_scan cond k operand ((k', v) # kvs) =
     (if k' = k then
        (if cond = ''$lt'' then (if js_lt v operand then True else conditional_scan cond k operand kvs)
         else if cond = ''$lte'' then (if js_lte v operand then True else conditional_scan cond k operand kvs)
         else if cond = ''$gt'' then (if js_gt v operand then True else conditional_scan cond k operand kvs)
         else if cond = ''$gte'' then (if js_gte v operand then True else conditional_scan cond k operand kvs)
         else conditional_scan cond k operand kvs)
      else conditional_scan cond k operand kvs)"

text \<open>One row against the first operator \<open>cond\<close> of the clause value: \<open>$exists\<close> tests the
  truthiness of the field, the comparisons need the key among the row's own keys.\<close>

definition conditional_row :: "string \<Rightarrow> test \<Rightarrow> doc \<Rightarrow> bool" where
  "conditional_row cond t row =
     (let operand = lookup (own_props (test_value t)) cond in
      if cond = ''$exists'' then
        (if truthy operand then truthy (lookup row (test_key t))
         else \<not> truthy (lookup row (test_key t)))
      else conditional_scan cond (test_key t) operand row)"

text \<open>\<open>matching_rows_CONDITIONAL\<close> applies the first key of the clause value and then deletes
  it from the clause value, unless that key is falsy (\<open>null\<close> or the empty string). It
  returns the rows kept and the clause value as it leaves it.\<close>

definition matching_rows_CONDITIONAL :: "heap \<Rightarrow> test \<Rightarrow> addr list \<Rightarrow> addr list \<times> jsval" where
  "matching_rows_CONDITIONAL h t rows =
     (case firstKey (test_value t) of
        None \<Rightarrow> ([], test_value t)
      | Some cond \<Rightarrow>
          (filter (\<lambda>row. conditional_row cond t (h row)) rows,
           if cond \<noteq> [] then delete_prop (test_value t) cond else test_value t))"

subsection \<open>OR\<close>

text \<open>One row against the sub-clauses in order; \<open>Returns True\<close> at the first that matches.
  A pattern is matched with \<open>row[key].match(pattern)\<close>, which throws unless the field holds
  a string.\<close>

fun or_row :: "doc \<Rightarrow> jsval list \<Rightarrow> bool outcome" where
  "or_row row [] = Returns False"
| "or_row row (elt # array) =
     (case firstKey elt of
        None \<Rightarrow>
          (case get_prop elt ''null'' of
             Throws e \<Rightarrow> Throws e
           | Returns _ \<Rightarrow> or_row row array)
      | Some eltkey \<Rightarrow>
          (let eltval = lookup (own_props elt) eltkey in
           case detect_clause_type eltkey eltval of
             CLAUSE_NORMAL \<Rightarrow>
               (if type_of eltval = T_regexp then
                  (case lookup row eltkey of
                     JStr s \<Rightarrow> if regexp_match eltval s then Returns True else or_row row array
                   | _ \<Rightarrow> Throws TypeError)
                else if strict_equals (lookup row eltkey) eltval then Returns True
                else or_row row array)
           | CLAUSE_CONDITIONAL \<Rightarrow>
               (let fk = firstKey eltval; rv = lookup row eltkey in
                if fk = Some ''$gt'' then
                  (if js_gt rv (lookup (own_props eltval) ''$gt'') then Returns True else or_row row array)
                else if fk = Some ''$gte'' then
                  (if js_gte rv (lookup (own_props eltval) ''$gte'') then Returns True else or_row row array)
                else if fk = Some ''$lt'' then
                  (if js_lt rv (lookup (own_props eltval) ''$lt'') then Returns True else or_row row array)
                else if fk = Some ''$lte'' then
                  (if js_lte rv (lookup (own_props eltval) ''$lte'') then Returns True else or_row row array)
                else if fk = Some ''$exists'' then
                  (if \<not> strict_equals rv JUndef \<and> truthy (lookup (own_props eltval) ''$exists'')
                   then Returns True
                   else if strict_equals rv JUndef \<and> \<not> truthy (lookup (own_props eltval) ''$exists'')
                   then Returns True
                   else or_row row array)
                else or_row row array)
           | _ \<Rightarrow> or_row row array))"

text \<open>The elements of an array value.\<close>

fun elements :: "jsval \<Rightarrow> jsval list" where
  "elements (JArr xs) = xs"
| "elements _ = []"

fun matching_rows_OR :: "heap \<Rightarrow> jsval list \<Rightarrow> addr list \<Rightarrow> addr list outcome" where
  "matching_rows_OR h array [] = Returns []"
| "matching_rows_OR h array (row # rows) =
     (case or_row (h row) array of
        Throws e \<Rightarrow> Throws e
      | Returns b \<Rightarrow>
          (case matching_rows_OR h array rows of
             Throws e \<Rightarrow> Throws e
           | Returns res \<Rightarrow> Returns (if b then row # res else res)))"

section \<open>The query engine\<close>

text \<open>The loop of \<open>do_query\<close> for a CONDITIONAL clause: while the clause value has a first
  key, apply it. The loop need not end; \<open>None\<close> is the run that never returns.\<close>

partial_function (option) conditional_loop ::
  "heap \<Rightarrow> string \<Rightarrow> jsval \<Rightarrow> addr list \<Rightarrow> (addr list \<times> jsval) option" where
  "conditional_loop h clause v result =
     (if firstKey v \<noteq> None then
        (case matching_rows_CONDITIONAL h \<lparr>test_key = clause, test_value = v\<rparr> result of
           (result', v') \<Rightarrow> conditional_loop h clause v' result')
      else Some (result, v))"

text \<open>The loop over the clauses of the query, in key order. It returns the rows kept and the
  clauses as the evaluation leaves them: a CONDITIONAL clause comes back with its value
  consumed. Each clause has a value of its own here, as in a query written as a literal;
  \<open>clause_loop_shared\<close> below is the loop on a query whose clauses may share a value.\<close>

definition and_then ::
  "(string \<times> jsval) \<Rightarrow> (addr list \<times> (string \<times> jsval) list) outcome option
     \<Rightarrow> (addr list \<times> (string \<times> jsval) list) outcome option" where
  "and_then c r =
     (case r of
        None \<Rightarrow> None
      | Some (Throws e) \<Rightarrow> Some (Throws e)
      | Some (Returns (result, cs)) \<Rightarrow> Some (Returns (result, c # cs)))"

fun clause_loop ::
  "heap \<Rightarrow> (string \<times> jsval) list \<Rightarrow> addr list
     \<Rightarrow> (addr list \<times> (string \<times> jsval) list) outcome option" where
  "clause_loop h [] result = Some (Returns (result, []))"
| "clause_loop h ((clause, v) # clauses) result =
     (case detect_clause_type clause v of
        CLAUSE_NORMAL \<Rightarrow>
          and_then (clause, v)
            (clause_loop h clauses
               (matching_rows_NORMAL h \<lparr>test_key = clause, test_value = v\<rparr> result))
      | CLAUSE_CONDITIONAL \<Rightarrow>
          (case conditional_loop h clause v result of
             None \<Rightarrow> None
           | Some (result', v') \<Rightarrow> and_then (clause, v') (clause_loop h clauses result'))
      | CLAUSE_OR \<Rightarrow>
          (case matching_rows_OR h (elements v) result of
             Throws e \<Rightarrow> Some (Throws e)
           | Returns result' \<Rightarrow> and_then (clause, v) (clause_loop h clauses result'))
      | _ \<Rightarrow> and_then (clause, v) (clause_loop h clauses result))"

text \<open>The query object with its clause values replaced by the ones the evaluation left.\<close>

fun with_props :: "jsval \<Rightarrow> (string \<times> jsval) list \<Rightarrow> jsval" where
  "with_props (JObj _) cs = JObj cs"
| "with_props (JArr _) cs = JArr (map snd cs)"
| "with_props v cs = v"

text \<open>\<open>do_query\<close>: the rows of the collection that pass every clause, and the query object
  as the call leaves it.\<close>

definition do_query :: "db_object \<Rightarrow> jsval \<Rightarrow> (addr list \<times> jsval) outcome option" where
  "do_query db clauses =
     (if \<not> truthy clauses \<or> (type_of clauses = T_object \<and> firstKey clauses = None)
      then Some (Returns (master db, clauses))
      else
        (case clause_loop (objects db) (own_props clauses) (master db) of
           None \<Rightarrow> None
         | Some (Throws e) \<Rightarrow> Some (Throws e)
         | Some (Returns (result, cs)) \<Rightarrow> Some (Returns (result, with_props clauses cs))))"

subsection \<open>Clause values that are shared\<close>

text \<open>In the program the value of a clause is an object, and one object can be the value of
  several clauses of a query. A query is then a list of keys, each with the reference of its
  value, and the list \<open>vals\<close> of the values the references stand for. \<open>clauses_of\<close> is the
  query read as a value.\<close>

definition clauses_of :: "jsval list \<Rightarrow> (string \<times> nat) list \<Rightarrow> (string \<times> jsval) list" where
  "clauses_of vals cs = map (\<lambda>c. (fst c, vals ! snd c)) cs"



text \<open>The rows an evaluation returns, without the query it leaves.\<close>

definition rows_of :: "('a \<times> 'b) outcome option \<Rightarrow> 'a outcome option" where
  "rows_of x =
     map_option (\<lambda>y. case y of Returns (rows, q) \<Rightarrow> Returns rows | Throws e \<Rightarrow> Throws e) x"

section \<open>A sample collection\<close>

text \<open>The collection after \<open>insert({a:1})\<close>, \<open>insert({a:2,b:2})\<close>, \<open>insert({a:3,b:3,c:3})\<close>
  and \<open>insert({name:'Paul'})\<close> into an empty store.\<close>

definition example_objects :: heap where
  "example_objects =
     (\<lambda>_. [])
       (0 := [(''_id'', JNum 1), (''a'', JNum 1)],
        1 := [(''_id'', JNum 2), (''a'', JNum 2), (''b'', JNum 2)],
        2 := [(''_id'', JNum 3), (''a'', JNum 3), (''b'', JNum 3), (''c'', JNum 3)],
        3 := [(''_id'', JNum 4), (''name'', JStr ''Paul'')])"

definition example_db :: db_object where
  "example_db =
     \<lparr>objects = example_objects, next_addr = 4, master = [0, 1, 2, 3], id_counter = JNum 4\<rparr>"

text \<open>A collection holding the single document \<open>{_id: 1, a: 0}\<close>.\<close>

definition example_zero_db :: db_object where
  "example_zero_db =
     \<lparr>objects = (\<lambda>_. [(''_id'', JNum 1), (''a'', JNum 0)]), next_addr = 1, master = [0],
      id_counter = JNum 1\<rparr>"

text \<open>A pattern that matches the strings containing \<open>P\<close>.\<close>

definition example_regexp :: jsval where
  "example_regexp = JRegex ''/P/'' (\<lambda>s. CHR ''P'' \<in> set s)"

section \<open>The result cursor\<close>

text \<open>\<open>JSON.parse(JSON.stringify(O))\<close> on a value: a field holding \<open>undefined\<close> is dropped, an
  \<open>undefined\<close> array element and \<open>NaN\<close> become \<open>null\<close>, a regular expression becomes the empty
  object.\<close>

fun json_value :: "jsval \<Rightarrow> jsval"
  and json_fields :: "(string \<times> jsval) list \<Rightarrow> (string \<times> jsval) list"
  and json_elements :: "jsval list \<Rightarrow> jsval list" where
  "json_value JUndef = JNull"
| "json_value JNaN = JNull"
| "json_value (JRegex _ _) = JObj []"
| "json_value (JArr xs) = JArr (json_elements xs)"
| "json_value (JObj kvs) = JObj (json_fields kvs)"
| "json_value JNull = JNull"
| "json_value (JBool b) = JBool b"
| "json_value (JNum n) = JNum n"
| "json_value (JStr s) = JStr s"
| "json_fields [] = []"
| "json_fields ((k, v) # kvs) =
     (case v of JUndef \<Rightarrow> json_fields kvs | _ \<Rightarrow> (k, json_value v) # json_fields kvs)"
| "json_elements [] = []"
| "json_elements (x # xs) = json_value x # json_elements xs"

text \<open>A new object in the store.\<close>

definition alloc :: "db_object \<Rightarrow> doc \<Rightarrow> db_object \<times> addr" where
  "alloc db d =
     (db\<lparr>objects := (objects db)(next_addr db := d), next_addr := Suc (next_addr db)\<rparr>,
      next_addr db)"

record db_result =
  length_r :: nat
  data :: "addr list"

text \<open>\<open>push\<close> stores a copy of the row made through JSON, a new object.\<close>

definition push :: "db_object \<times> db_result \<Rightarrow> addr \<Rightarrow> db_object \<times> db_result" where
  "push s O' =
     (case s of (db, this) \<Rightarrow>
        (case alloc db (json_fields (objects db O')) of (db', a) \<Rightarrow>
           (db', this\<lparr>data := data this @ [a], length_r := length (data this @ [a])\<rparr>)))"

definition new_db_result :: "db_object \<Rightarrow> addr list \<Rightarrow> db_object \<times> db_result" where
  "new_db_result db arg = foldl push (db, \<lparr>length_r = 0, data = []\<rparr>) arg"

text \<open>\<open>Array.prototype.splice(start, deleteCount)\<close> with no items to insert, on numbers that
  may be \<open>NaN\<close> (\<open>None\<close>).\<close>

definition array_splice :: "int option \<Rightarrow> int option \<Rightarrow> 'a list \<Rightarrow> 'a list" where
  "array_splice start deleteCount xs =
     (let len = int (length xs);
          relativeStart = (case start of None \<Rightarrow> 0 | Some i \<Rightarrow> i);
          actualStart = (if relativeStart < 0 then max (len + relativeStart) 0
                         else min relativeStart len);
          dc = (case deleteCount of None \<Rightarrow> 0 | Some d \<Rightarrow> d);
          actualDeleteCount = min (max dc 0) (len - actualStart)
      in take (nat actualStart) xs @ drop (nat (actualStart + actualDeleteCount)) xs)"

text \<open>\<open>limit\<close>: \<open>lim = Number(_l)\<close> always has type "number", so the early return is never
  taken; the call is \<open>_data.splice(lim, _data.length - lim)\<close>.\<close>

definition limit :: "jsval \<Rightarrow> db_result \<Rightarrow> db_result" where
  "limit l this =
     (let lim = to_number l;
          d = array_splice lim (map_option (\<lambda>n. int (length (data this)) - n) lim) (data this)
      in this\<lparr>data := d, length_r := length d\<rparr>)"

definition skip :: "jsval \<Rightarrow> db_result \<Rightarrow> db_result" where
  "skip s this =
     (let skp = to_number s;
          d = array_splice (Some 0) skp (data this)
      in this\<lparr>data := d, length_r := length d\<rparr>)"

definition count_r :: "db_result \<Rightarrow> nat" where
  "count_r this = length (data this)"

text \<open>The comparator of \<open>sort\<close>. \<open>val\<close> is the direction as the caller gave it; the result is
  a number, \<open>None\<close> for \<open>NaN\<close>. \<open>localeCompare\<close> depends on the host's locale and is a
  parameter.\<close>

definition sort_compare ::
  "(string \<Rightarrow> string \<Rightarrow> int) \<Rightarrow> string \<Rightarrow> jsval \<Rightarrow> doc \<Rightarrow> doc \<Rightarrow> int option" where
  "sort_compare localeCompare k val a b =
     (if \<not> truthy (lookup a k) then map_option uminus (to_number val)
      else if \<not> truthy (lookup b k) then to_number val
      else
        (case (lookup a k, lookup b k) of
           (JStr s, JStr t) \<Rightarrow> map_option (\<lambda>v. localeCompare s t * v) (to_number val)
         | (x, y) \<Rightarrow> if js_gt x y then to_number val else map_option uminus (to_number val)))"

text \<open>\<open>Array.prototype.sort\<close> with a comparator. The language leaves the algorithm to the
  host; it is taken to be insertion sort, each element placed before the first element of
  the sorted rest that the comparator does not put before it. A \<open>NaN\<close> from the comparator
  counts as 0.\<close>

fun insert_sorted :: "('a \<Rightarrow> 'a \<Rightarrow> int option) \<Rightarrow> 'a \<Rightarrow> 'a list \<Rightarrow> 'a list" where
  "insert_sorted cmp x [] = [x]"
| "insert_sorted cmp x (y # ys) =
     (if (case cmp x y of None \<Rightarrow> 0 | Some c \<Rightarrow> c) \<le> 0 then x # y # ys
      else y # insert_sorted cmp x ys)"

fun array_sort :: "('a \<Rightarrow> 'a \<Rightarrow> int option) \<Rightarrow> 'a list \<Rightarrow> 'a list" where
  "array_sort cmp [] = []"
| "array_sort cmp (x # xs) = insert_sorted cmp x (array_sort cmp xs)"

text \<open>\<open>sort(O)\<close>: the field is the first key of \<open>O\<close>, the direction its value.\<close>

definition sort_r ::
  "(string \<Rightarrow> string \<Rightarrow> int) \<Rightarrow> heap \<Rightarrow> jsval \<Rightarrow> db_result \<Rightarrow> db_result outcome" where
  "sort_r localeCompare h O' this =
     (let k = (case firstKey O' of None \<Rightarrow> ''null'' | Some i \<Rightarrow> i) in
      case get_prop O' k of
        Throws e \<Rightarrow> Throws e
      | Returns val \<Rightarrow>
          Returns (this\<lparr>data :=
            array_sort (\<lambda>a b. sort_compare localeCompare k val (h a) (h b)) (data this)\<rparr>))"

section \<open>The mutation engine\<close>

text \<open>The definitions follow \<open>mongolite.js\<close>. Its sibling \<open>buryat.js\<close> has the same query
  engine, cursor, \<open>update\<close> and \<open>remove\<close>; it differs in that \<open>insert_one\<close> and the backfill at
  load write \<open>_id\<close> into the given object instead of building a copy with \<open>addToFront\<close>, and
  in that its \<open>skip\<close> does nothing.\<close>

text \<open>\<open>addToFront\<close>: a new object with the given field first and then every field of \<open>obj\<close>,
  written in order; an \<open>obj\<close> without fields is returned as it is.\<close>

definition addToFront :: "doc \<Rightarrow> string \<Rightarrow> jsval \<Rightarrow> doc" where
  "addToFront obj k v =
     (if map fst obj = [] then obj
      else foldl (\<lambda>newObj key. set_prop newObj key (lookup obj key)) [(k, v)] (map fst obj))"

text \<open>\<open>n + 1\<close> on doubles, for an integer \<open>n\<close> that a double holds exactly. Up to \<open>2^53\<close> in
  magnitude the sum is exact, except that \<open>2^53 + 1\<close> is no double and rounds back to
  \<open>2^53\<close>. From \<open>2^53\<close> to \<open>2^54\<close> the doubles are the even integers, and the odd sum rounds
  to the neighbour whose half is even; beyond \<open>2^54\<close> it rounds back to \<open>n\<close>.\<close>

definition double_succ :: "int \<Rightarrow> int" where
  "double_succ n =
     (if - 9007199254740992 \<le> n \<and> n < 9007199254740992 then n + 1
      else if - 18014398509481984 \<le> n \<and> n < 18014398509481984
      then (if even (n div 2) then n else n + 2)
      else n)"

text \<open>\<open>++x\<close> on a value: its number plus one, as doubles add.\<close>

definition incr :: "jsval \<Rightarrow> jsval" where
  "incr v = of_number (map_option double_succ (to_number v))"

text \<open>\<open>insert_one\<close>: the state after the call and the value returned, or the fault thrown
  (\<open>null\<close> passes the type test and faults at \<open>obj["_id"]\<close>).\<close>

definition insert_one :: "db_object \<Rightarrow> jsval \<Rightarrow> db_object \<times> jsval outcome" where
  "insert_one that obj =
     (case obj of
        JObj d \<Rightarrow>
          (let (that1, d1) =
                 (if \<not> truthy (lookup d ''_id'')
                  then (that\<lparr>id_counter := incr (id_counter that)\<rparr>,
                        addToFront d ''_id'' (incr (id_counter that)))
                  else (that, d));
               (that2, a) = alloc that1 d1
           in (that2\<lparr>master := master that2 @ [a]\<rparr>, Returns (lookup d1 ''_id'')))
      | JNull \<Rightarrow> (that, Throws TypeError)
      | _ \<Rightarrow> (that, Returns (JNum (- 1))))"

fun insert_each :: "db_object \<Rightarrow> jsval \<Rightarrow> jsval list \<Rightarrow> db_object \<times> jsval outcome" where
  "insert_each that id_set [] = (that, Returns id_set)"
| "insert_each that id_set (x # xs) =
     (case insert_one that x of
        (that', Throws e) \<Rightarrow> (that', Throws e)
      | (that', Returns i) \<Rightarrow> insert_each that' i xs)"

definition insert_db :: "db_object \<Rightarrow> jsval \<Rightarrow> db_object \<times> jsval outcome" where
  "insert_db this Arg =
     (if type_of Arg = T_array then insert_each this (JNum (- 1)) (elements Arg)
      else insert_one this Arg)"

text \<open>The inner loop of \<open>update\<close> on one row: each field of \<open>$set\<close> that is falsy in the row or
  not strictly equal is written; the flag says whether any was. The loop is read on an
  ordinary \<open>$set\<close>, where the guard \<open>set.hasOwnProperty(j)\<close> holds of every key.\<close>

fun apply_set :: "(string \<times> jsval) list \<Rightarrow> doc \<Rightarrow> doc \<times> bool" where
  "apply_set [] row = (row, False)"
| "apply_set ((k, v) # set') row =
     (if \<not> truthy (lookup row k) \<or> \<not> strict_equals (lookup row k) v
      then (fst (apply_set set' (set_prop row k v)), True)
      else apply_set set' row)"

text \<open>The outer loop of \<open>update\<close> over the matched rows, writing through the references.\<close>

fun update_rows :: "heap \<Rightarrow> (string \<times> jsval) list \<Rightarrow> bool \<Rightarrow> addr list \<Rightarrow> heap \<times> int" where
  "update_rows h set' do_multi [] = (h, 0)"
| "update_rows h set' do_multi (row # res) =
     (let (row', did_change) = apply_set set' (h row);
          h' = h(row := row');
          n = (if did_change then 1 else 0)
      in if \<not> do_multi then (h', n)
         else (case update_rows h' set' do_multi res of (h'', m) \<Rightarrow> (h'', n + m)))"

text \<open>An operation on the store gives the state it leaves and what it returned or threw;
  \<open>None\<close> is a call that never returns.\<close>

type_synonym 'a result = "(db_object \<times> 'a outcome) option"

text \<open>\<open>update(query, _update, options)\<close>; \<open>options\<close> is \<open>None\<close> for a call with two arguments.
  It returns the number of rows altered and the query object as the call leaves it.\<close>

definition update_db ::
  "db_object \<Rightarrow> jsval \<Rightarrow> jsval \<Rightarrow> jsval option \<Rightarrow> (int \<times> jsval) result" where
  "update_db this query upd options =
     (if type_of query \<noteq> T_object \<or> type_of upd \<noteq> T_object then Some (this, Returns (0, query))
      else if options \<noteq> None \<and> type_of (the options) \<noteq> T_object
      then Some (this, Returns (0, query))
      else
        (case get_prop upd ''$set'' of
           Throws e \<Rightarrow> Some (this, Throws e)
         | Returns set' \<Rightarrow>
             if \<not> truthy set' then Some (this, Returns (0, query))
             else
               (case do_query this query of
                  None \<Rightarrow> None
                | Some (Throws e) \<Rightarrow> Some (this, Throws e)
                | Some (Returns (res, query')) \<Rightarrow>
                    (case (case options of
                             None \<Rightarrow> Returns (False, False)
                           | Some opts \<Rightarrow>
                               (case get_prop opts ''multi'' of
                                  Throws e \<Rightarrow> Throws e
                                | Returns m \<Rightarrow>
                                    (case get_prop opts ''upsert'' of
                                       Throws e \<Rightarrow> Throws e
                                     | Returns u \<Rightarrow> Returns (truthy m, truthy u)))) of
                       Throws e \<Rightarrow> Some (this, Throws e)
                     | Returns (do_multi, do_upsert) \<Rightarrow>
                         if length res = 0 \<and> do_upsert then
                           (case insert_db this set' of
                              (this', Throws e) \<Rightarrow> Some (this', Throws e)
                            | (this', Returns _) \<Rightarrow> Some (this', Returns (1, query')))
                         else
                           (case update_rows (objects this) (own_props set') do_multi res of
                              (h', rows_altered) \<Rightarrow>
                                Some (this\<lparr>objects := h'\<rparr>, Returns (rows_altered, query')))))))"

text \<open>\<open>find\<close>: the cursor over copies of the matched rows, and the query object as the call
  leaves it.\<close>

definition find_db :: "db_object \<Rightarrow> jsval \<Rightarrow> (db_result \<times> jsval) result" where
  "find_db this match =
     (case do_query this match of
        None \<Rightarrow> None
      | Some (Throws e) \<Rightarrow> Some (this, Throws e)
      | Some (Returns (res, match')) \<Rightarrow>
          (case new_db_result this res of
             (this', dbres) \<Rightarrow> Some (this', Returns (dbres, match'))))"

text \<open>The filter of \<open>remove\<close> on one row: whether it is dropped.\<close>

definition removed_row :: "jsval list \<Rightarrow> doc \<Rightarrow> bool" where
  "removed_row rmids row =
     list_ex (\<lambda>i. truthy (lookup row ''_id'') \<and> strict_equals (lookup row ''_id'') i) rmids"

text \<open>\<open>remove(constraints)\<close>; \<open>None\<close> is the call without an argument.\<close>

definition remove_db :: "db_object \<Rightarrow> jsval option \<Rightarrow> (int \<times> jsval) result" where
  "remove_db this arg =
     (let constraints = (case arg of None \<Rightarrow> JObj [] | Some c \<Rightarrow> c) in
      if type_of constraints \<noteq> T_object then Some (this, Returns (0, constraints))
      else
        (case do_query this constraints of
           None \<Rightarrow> None
         | Some (Throws e) \<Rightarrow> Some (this, Throws e)
         | Some (Returns (rows, constraints')) \<Rightarrow>
             if length rows = 0 then Some (this, Returns (0, constraints'))
             else
               (let rmids = filter truthy (map (\<lambda>row. lookup (objects this row) ''_id'') rows) in
                if length rmids = 0 then Some (this, Returns (0, constraints'))
                else
                  (let new_master =
                         filter (\<lambda>row. \<not> removed_row rmids (objects this row)) (master this);
                       rows_altered =
                         int (length (filter (\<lambda>row. removed_row rmids (objects this row))
                                        (master this)))
                   in if rows_altered > 0
                      then Some (this\<lparr>master := new_master\<rparr>, Returns (rows_altered, constraints'))
                      else Some (this, Returns (rows_altered, constraints'))))))"

definition count_db :: "db_object \<Rightarrow> nat" where
  "count_db this = length (master this)"

section \<open>Loading\<close>

text \<open>The first pass of \<open>finish_db_setup\<close>: the highest \<open>_id\<close> and whether any row lacks one.\<close>

fun highest_id :: "heap \<Rightarrow> addr list \<Rightarrow> jsval \<times> bool \<Rightarrow> jsval \<times> bool" where
  "highest_id h [] s = s"
| "highest_id h (row # rows) (highest, any_missing) =
     (if \<not> truthy (lookup (h row) ''_id'') then highest_id h rows (highest, True)
      else if js_gt (lookup (h row) ''_id'') highest
      then highest_id h rows (lookup (h row) ''_id'', any_missing)
      else highest_id h rows (highest, any_missing))"

text \<open>The second pass: each row without an \<open>_id\<close> is replaced by a copy with the next one.\<close>

fun backfill :: "db_object \<Rightarrow> jsval \<Rightarrow> addr list \<Rightarrow> addr list \<Rightarrow> db_object \<times> jsval" where
  "backfill this highest done [] = (this\<lparr>master := done\<rparr>, highest)"
| "backfill this highest done (row # rows) =
     (if \<not> truthy (lookup (objects this row) ''_id'') then
        (case alloc this (addToFront (objects this row) ''_id'' (incr highest)) of
           (this', a) \<Rightarrow> backfill this' (incr highest) (done @ [a]) rows)
      else backfill this highest (done @ [row]) rows)"

definition finish_db_setup :: "db_object \<Rightarrow> db_object" where
  "finish_db_setup this =
     (if length (master this) > 0 then
        (case highest_id (objects this) (master this) (JNum 0, False) of
           (highest, any_missing) \<Rightarrow>
             (case (if any_missing then backfill this highest [] (master this)
                    else (this, highest)) of
                (this', highest') \<Rightarrow> this'\<lparr>id_counter := highest'\<rparr>))
      else this)"

text \<open>A store opened on the parsed rows of a snapshot.\<close>

definition open_db :: "doc list \<Rightarrow> db_object" where
  "open_db rows =
     finish_db_setup
       \<lparr>objects = (\<lambda>a. if a < length rows then rows ! a else []),
        next_addr = length rows,
        master = [0..<length rows],
        id_counter = JNum 0\<rparr>"

section \<open>Clauses read row by row\<close>

text \<open>What a CONDITIONAL clause value asks of one row when its keys are consumed one after
  the other: each pass tests the first key left and deletes it.\<close>

function conditional_all :: "string \<Rightarrow> doc \<Rightarrow> doc \<Rightarrow> bool" where
  "conditional_all k [] row = True"
| "conditional_all k ((c, x) # ops) row =
     (conditional_row c \<lparr>test_key = k, test_value = JObj ((c, x) # ops)\<rparr> row
      \<and> conditional_all k (filter (\<lambda>(k', _). k' \<noteq> c) ops) row)"
  by pat_completeness auto
termination
  by (relation "measure (\<lambda>(k, ops, row). length ops)") (auto simp: less_Suc_eq_le)

text \<open>What one clause of a query asks of one row, and how the evaluation leaves the clause.\<close>

definition clause_row :: "string \<times> jsval \<Rightarrow> doc \<Rightarrow> bool outcome" where
  "clause_row c row =
     (case detect_clause_type (fst c) (snd c) of
        CLAUSE_NORMAL \<Rightarrow> Returns (normal_row \<lparr>test_key = fst c, test_value = snd c\<rparr> row)
      | CLAUSE_CONDITIONAL \<Rightarrow> Returns (conditional_all (fst c) (own_props (snd c)) row)
      | CLAUSE_OR \<Rightarrow> or_row row (elements (snd c))
      | _ \<Rightarrow> Returns True)"

definition clause_after :: "string \<times> jsval \<Rightarrow> string \<times> jsval" where
  "clause_after c =
     (if detect_clause_type (fst c) (snd c) = CLAUSE_CONDITIONAL then (fst c, JObj []) else c)"

definition clause_diverges :: "string \<times> jsval \<Rightarrow> bool" where
  "clause_diverges c =
     (detect_clause_type (fst c) (snd c) = CLAUSE_CONDITIONAL \<and> [] \<in> fst ` set (own_props (snd c)))"

section \<open>What update counts\<close>



section \<open>Sequences of operations\<close>

datatype operation =
    Insert jsval
  | Update jsval jsval "jsval option"
  | Remove "jsval option"

text \<open>The store after one operation; a call that throws leaves the store as it is at the
  throw, a call that never returns leaves no store (\<open>None\<close>).\<close>

fun step :: "db_object \<Rightarrow> operation \<Rightarrow> db_object option" where
  "step db (Insert Arg) = Some (fst (insert_db db Arg))"
| "step db (Update query upd options) = map_option fst (update_db db query upd options)"
| "step db (Remove arg) = map_option fst (remove_db db arg)"


definition id_of :: "doc \<Rightarrow> jsval" where
  "id_of row = lookup row ''_id''"




text \<open>The \<open>_id\<close> of a document is bounded by \<open>c\<close>: it is absent or falsy, or an integer up to
  \<open>c\<close>. It is fresh between \<open>c\<close> and \<open>c'\<close>: absent or falsy, or an integer above \<open>c\<close> and up to
  \<open>c'\<close>.\<close>

definition id_bounded :: "int \<Rightarrow> doc \<Rightarrow> bool" where
  "id_bounded c row = (case id_of row of JNum i \<Rightarrow> i \<le> c | v \<Rightarrow> \<not> truthy v)"

definition id_fresh :: "int \<Rightarrow> int \<Rightarrow> doc \<Rightarrow> bool" where
  "id_fresh c c' row = (case id_of row of JNum i \<Rightarrow> i = 0 \<or> (c < i \<and> i \<le> c') | v \<Rightarrow> \<not> truthy v)"







section \<open>Properties\<close>

subsection \<open>Basic facts\<close>

lemma lookup_Nil [simp]: "lookup [] k = JUndef"
  by (simp add: lookup_def)

lemma lookup_Cons [simp]: "lookup ((k', v) # kvs) k = (if k' = k then v else lookup kvs k)"
  by (simp add: lookup_def)

lemma firstKey_JObj_Nil [simp]: "firstKey (JObj []) = None"
  by (simp add: firstKey_def)

lemma firstKey_JObj_Cons [simp]: "firstKey (JObj ((k, v) # kvs)) = Some k"
  by (simp add: firstKey_def)

lemma detect_primitive [simp]:
  "detect_clause_type k (JBool b) = (if CHR ''.'' \<notin> set k then CLAUSE_NORMAL else CLAUSE_SUBDOCUMENT_MATCH)"
  "detect_clause_type k (JNum n) = (if CHR ''.'' \<notin> set k then CLAUSE_NORMAL else CLAUSE_SUBDOCUMENT_MATCH)"
  "detect_clause_type k JNaN = (if CHR ''.'' \<notin> set k then CLAUSE_NORMAL else CLAUSE_SUBDOCUMENT_MATCH)"
  "detect_clause_type k (JStr s) = (if CHR ''.'' \<notin> set k then CLAUSE_NORMAL else CLAUSE_SUBDOCUMENT_MATCH)"
  "detect_clause_type k (JRegex src m) = (if CHR ''.'' \<notin> set k then CLAUSE_NORMAL else CLAUSE_SUBDOCUMENT_MATCH)"
  by (simp_all add: detect_clause_type_def)

lemma detect_other [simp]:
  "detect_clause_type k JUndef = CLAUSE_UNKNOWN"
  "detect_clause_type k JNull = CLAUSE_SUBDOCUMENT"
  "detect_clause_type k (JObj kvs) =
     (if is_operator (firstKey (JObj kvs)) then CLAUSE_CONDITIONAL else CLAUSE_SUBDOCUMENT)"
  "detect_clause_type k (JArr xs) = (if k = ''$or'' then CLAUSE_OR else CLAUSE_ARRAY)"
  by (simp_all add: detect_clause_type_def firstKey_def is_operator_def)

lemma throws_TypeError: "(x = Throws e) = (x = Throws TypeError)"
  by (cases e) simp

subsection \<open>The CONDITIONAL loop\<close>

text \<open>A clause value whose first key is the empty string is never consumed: the loop cannot
  return from it.\<close>

lemma conditional_loop_stuck:
  assumes "conditional_loop h k v rows = Some y"
  shows "firstKey v \<noteq> Some []"
proof (rule conditional_loop.raw_induct
    [where P = "\<lambda>h k v rows y. firstKey v \<noteq> Some []", OF _ assms])
  fix f :: "heap \<Rightarrow> string \<Rightarrow> jsval \<Rightarrow> addr list \<Rightarrow> (addr list \<times> jsval) option"
  fix h k v rows y
  assume IH: "\<And>h k v rows y. f h k v rows = Some y \<Longrightarrow> firstKey v \<noteq> Some []"
  assume step: "(if firstKey v \<noteq> None then
        (case matching_rows_CONDITIONAL h \<lparr>test_key = k, test_value = v\<rparr> rows of
           (result', v') \<Rightarrow> f h k v' result')
      else Some (rows, v)) = Some y"
  show "firstKey v \<noteq> Some []"
  proof
    assume e: "firstKey v = Some []"
    with step have "f h k v (filter (\<lambda>row. conditional_row []
        \<lparr>test_key = k, test_value = v\<rparr> (h row)) rows) = Some y"
      by (simp add: matching_rows_CONDITIONAL_def)
    from IH[OF this] e show False by simp
  qed
qed

text \<open>
  C6 (termination of the CONDITIONAL loop), at the clause \<open>{a: {$gt: 1, "": 5}}\<close>: the value
  classifies as CONDITIONAL by its first key \<open>$gt\<close>; the first pass consumes \<open>$gt\<close>, the
  second finds the first key \<open>""\<close>, which is falsy, so \<open>if ( cond ) delete ...\<close> leaves it
  in place and the loop never ends, on any collection.
\<close>

theorem do_query_empty_operator_key_diverges:
  "do_query db (JObj [(''a'', JObj [(''$gt'', JNum 1), ('''', JNum 5)])]) = None"
proof -
  let ?h = "objects db"
  have "conditional_loop ?h ''a'' (JObj [('''', JNum 5)]) rows = None" for rows
    using conditional_loop_stuck[of ?h "''a''" "JObj [('''', JNum 5)]" rows]
    by (cases "conditional_loop ?h ''a'' (JObj [('''', JNum 5)]) rows") (auto simp: firstKey_def)
  then have "conditional_loop ?h ''a'' (JObj [(''$gt'', JNum 1), ('''', JNum 5)]) rows = None"
    for rows
    by (subst conditional_loop.simps) (simp add: firstKey_def matching_rows_CONDITIONAL_def)
  then show ?thesis
    by (simp add: do_query_def firstKey_def detect_clause_type_def is_operator_def)
qed

theorem do_query_empty_operator_key_diverges_witness:
  "do_query example_db (JObj [(''a'', JObj [(''$gt'', JNum 1), ('''', JNum 5)])]) = None"
  using do_query_empty_operator_key_diverges [of example_db] by simp

subsection \<open>A pattern in an OR clause\<close>

lemma or_row_regexp_throws:
  assumes "CHR ''.'' \<notin> set k" and "\<forall>s. lookup row k \<noteq> JStr s"
  shows "or_row row [JObj [(k, JRegex src m)]] = Throws TypeError"
proof -
  have "or_row row [JObj [(k, JRegex src m)]] =
      (case lookup row k of
         JStr s \<Rightarrow> if regexp_match (JRegex src m) s then Returns True else or_row row []
       | _ \<Rightarrow> Throws TypeError)"
    using assms(1) by simp
  with assms(2) show ?thesis
    by (cases "lookup row k") simp_all
qed

lemma matching_rows_OR_throws:
  assumes "row \<in> set rows" and "or_row (h row) array = Throws TypeError"
  shows "matching_rows_OR h array rows = Throws TypeError"
  using assms
proof (induction rows)
  case Nil
  then show ?case by simp
next
  case (Cons r rows)
  show ?case
  proof (cases "or_row (h r) array")
    case (Throws e)
    then show ?thesis by (cases e) simp
  next
    case (Returns b)
    with Cons.prems have "row \<in> set rows" by auto
    from Cons.IH[OF this Cons.prems(2)] Returns show ?thesis by simp
  qed
qed

text \<open>
  C9 (no operation throws), at an \<open>$or\<close> clause with a pattern: whenever the collection holds
  a document whose tested field is not a string (absent, a number, ...), \<open>find\<close>, \<open>update\<close>
  and \<open>remove\<close> with \<open>{$or: [{k: /pattern/}]}\<close> throw a TypeError, from
  \<open>row[test.key].match(...)\<close> in \<open>matching_rows_OR\<close>. The NORMAL matcher converts the field to
  a string first and only looks at rows that have the key.
\<close>

theorem or_regexp_missing_field_throws:
  assumes "row \<in> set (master db)"
    and "\<forall>s. lookup (objects db row) k \<noteq> JStr s"
    and "CHR ''.'' \<notin> set k"
  shows "find_db db (JObj [(''$or'', JArr [JObj [(k, JRegex src m)]])]) = Some (db, Throws TypeError)
       \<and> update_db db (JObj [(''$or'', JArr [JObj [(k, JRegex src m)]])])
            (JObj [(''$set'', JObj [(f, v)])]) None = Some (db, Throws TypeError)
       \<and> remove_db db (Some (JObj [(''$or'', JArr [JObj [(k, JRegex src m)]])]))
            = Some (db, Throws TypeError)"
proof -
  let ?q = "JObj [(''$or'', JArr [JObj [(k, JRegex src m)]])]"
  have "matching_rows_OR (objects db) [JObj [(k, JRegex src m)]] (master db) = Throws TypeError"
    using assms by (intro matching_rows_OR_throws[of row] or_row_regexp_throws) auto
  then have q: "do_query db ?q = Some (Throws TypeError)"
    by (simp add: do_query_def)
  show ?thesis
    using q by (simp add: find_db_def update_db_def remove_db_def get_prop_def)
qed

theorem or_regexp_missing_field_throws_witness:
  "find_db example_db (JObj [(''$or'', JArr [JObj [(''name'', JRegex ''/P/'' (\<lambda>s. CHR ''P'' \<in> set s))]])])
     = Some (example_db, Throws TypeError)"
proof -
  have a: "0 \<in> set (master example_db)" by (simp add: example_db_def)
  have b: "\<forall>s. lookup (objects example_db 0) ''name'' \<noteq> JStr s"
    by (simp add: example_db_def example_objects_def)
  have c: "CHR ''.'' \<notin> set ''name''" by simp
  from or_regexp_missing_field_throws[OF a b c] show ?thesis by blast
qed

subsection \<open>The cursor: limit\<close>

lemma trim_first:
  assumes "dropWhile is_space s = c # cs"
  shows "\<exists>cs'. trim s = c # cs'"
proof -
  from hd_dropWhile[of is_space s] assms have nc: "\<not> is_space c" by simp
  then have "dropWhile is_space (rev cs @ [c]) = [c]
      \<or> dropWhile is_space (rev cs @ [c]) = dropWhile is_space (rev cs) @ [c]"
    by (simp add: dropWhile_append)
  then have "trim s = [c] \<or> trim s = c # rev (dropWhile is_space (rev cs))"
    by (auto simp: trim_def assms)
  then show ?thesis by blast
qed

lemma is_letter_no_literal:
  assumes "is_letter c"
  shows "c \<noteq> CHR ''-'' \<and> c \<noteq> CHR ''+'' \<and> \<not> is_digit c"
  using assms by (auto simp: is_letter_def is_digit_def)

lemma non_numeric_to_number:
  assumes "non_numeric l"
  shows "to_number l = None"
proof (cases l)
  case (JStr s)
  with assms obtain c cs where d: "dropWhile is_space s = c # cs" and c: "is_letter c"
    by (auto split: list.splits)
  from trim_first[OF d] obtain cs' where "trim s = c # cs'" by blast
  with is_letter_no_literal[OF c] JStr show ?thesis
    by (simp add: to_number_def string_to_number_def)
qed (use assms in \<open>simp_all add: to_number_def\<close>)

text \<open>
  C8 (limit with an argument that is not a non-negative integer is a no-op), as stated, at
  \<open>limit(-1)\<close> on a cursor of two documents: \<open>splice(-1, 3)\<close> removes the last one.
\<close>

theorem limit_negative_counterexample:
  "limit (JNum (- 1)) \<lparr>length_r = 2, data = [5, 6]\<rparr> = \<lparr>length_r = 1, data = [5]\<rparr>
   \<and> limit (JNum (- 1)) \<lparr>length_r = 2, data = [5, 6]\<rparr> \<noteq> \<lparr>length_r = 2, data = [5, 6]\<rparr>"
  by (simp add: limit_def array_splice_def to_number_def)

text \<open>
  C8 as amended: \<open>limit(n)\<close> leaves the cursor as it is when \<open>n\<close> is \<open>undefined\<close>, \<open>NaN\<close> or a
  string that starts, after leading blanks, with a letter other than \<open>I\<close> (no such string is
  a numeric literal, and each of these arguments coerces to \<open>NaN\<close>). When \<open>n\<close> is a number,
  or a string or other primitive, that coerces to a negative integer \<open>-k\<close>, \<open>limit(n)\<close>
  removes the last \<open>k\<close> documents (all of them when there are fewer).
\<close>

theorem limit_nan_or_negative:
  assumes "length_r this = length (data this)"
  shows "(non_numeric l \<longrightarrow> limit l this = this)
       \<and> (\<forall>i. primitive l \<and> to_number l = Some i \<and> - 9007199254740992 \<le> i \<and> i < 0 \<longrightarrow>
            data (limit l this) = take (length (data this) - nat (- i)) (data this)
            \<and> length_r (limit l this) = length (data this) - nat (- i))"
proof (intro conjI impI allI)
  assume "non_numeric l"
  then have "to_number l = None" by (rule non_numeric_to_number)
  with assms show "limit l this = this"
    by (simp add: limit_def array_splice_def)
next
  fix i
  assume "primitive l \<and> to_number l = Some i \<and> - 9007199254740992 \<le> i \<and> i < 0"
  then have h: "to_number l = Some i \<and> i < 0" by simp
  let ?len = "int (length (data this))"
  have s: "array_splice (Some i) (Some (?len - i)) (data this)
           = take (length (data this) - nat (- i)) (data this)"
  proof (cases "?len + i < 0")
    case True
    with h show ?thesis by (simp add: array_splice_def Let_def max_def min_def)
  next
    case False
    with h have "nat (?len + i) = length (data this) - nat (- i)" by linarith
    with False h show ?thesis by (simp add: array_splice_def Let_def max_def min_def)
  qed
  with h show "data (limit l this) = take (length (data this) - nat (- i)) (data this)"
    by (simp add: limit_def)
  from s h show "length_r (limit l this) = length (data this) - nat (- i)"
    by (simp add: limit_def)
qed

theorem limit_nan_or_negative_witness:
  "limit (JStr ''abc'') \<lparr>length_r = 2, data = [5, 6]\<rparr> = \<lparr>length_r = 2, data = [5, 6]\<rparr>
   \<and> data (limit (JStr '' -3'') \<lparr>length_r = 2, data = [5, 6]\<rparr>) = []
   \<and> data (limit (JNum (- 1)) \<lparr>length_r = 2, data = [5, 6]\<rparr>) = [5]"
proof -
  let ?c = "\<lparr>length_r = 2, data = [5, 6 :: nat]\<rparr>"
  have a: "length_r ?c = length (data ?c)" by simp
  have n: "non_numeric (JStr ''abc'')"
    by (simp add: is_space_def is_letter_def)
  have m: "primitive (JStr '' -3'') \<and> to_number (JStr '' -3'') = Some (- 3)
      \<and> - 9007199254740992 \<le> (- 3 :: int) \<and> (- 3 :: int) < 0"
    by (simp add: to_number_def string_to_number_def trim_def is_space_def is_digit_def
        digits_value_def)
  have k: "primitive (JNum (- 1)) \<and> to_number (JNum (- 1)) = Some (- 1)
      \<and> - 9007199254740992 \<le> (- 1 :: int) \<and> (- 1 :: int) < 0"
    by (simp add: to_number_def)
  from limit_nan_or_negative[OF a, of "JStr ''abc''"] n have 1: "limit (JStr ''abc'') ?c = ?c"
    by blast
  from limit_nan_or_negative[OF a, of "JStr '' -3''"] m
  have 2: "data (limit (JStr '' -3'') ?c) = take (length (data ?c) - nat (- (- 3))) (data ?c)"
    by blast
  from limit_nan_or_negative[OF a, of "JNum (- 1)"] k
  have 3: "data (limit (JNum (- 1)) ?c) = take (length (data ?c) - nat (- (- 1))) (data ?c)"
    by blast
  from 1 2 3 show ?thesis by simp
qed

subsection \<open>The cursor: sort\<close>

lemma set_insert_sorted [simp]: "set (insert_sorted cmp x ys) = Set.insert x (set ys)"
  by (induction ys) auto

lemma mset_insert_sorted [simp]: "mset (insert_sorted cmp x ys) = add_mset x (mset ys)"
  by (induction ys) auto

lemma mset_array_sort [simp]: "mset (array_sort cmp xs) = mset xs"
  by (induction xs) auto

lemma insert_sorted_falsy_first:
  assumes "\<And>b. M x \<Longrightarrow> (case cmp x b of None \<Rightarrow> 0 | Some c \<Rightarrow> c) \<le> 0"
    and "\<And>b. \<not> M x \<Longrightarrow> M b \<Longrightarrow> (case cmp x b of None \<Rightarrow> 0 | Some c \<Rightarrow> c) > 0"
    and "sorted_wrt (\<lambda>a b. M b \<longrightarrow> M a) ys"
  shows "sorted_wrt (\<lambda>a b. M b \<longrightarrow> M a) (insert_sorted cmp x ys)"
  using assms(3)
proof (induction ys)
  case Nil
  then show ?case by simp
next
  case (Cons y ys)
  show ?case
  proof (cases "M x")
    case True
    with assms(1)[of y] Cons.prems show ?thesis by auto
  next
    case False
    show ?thesis
    proof (cases "(case cmp x y of None \<Rightarrow> 0 | Some c \<Rightarrow> c) \<le> 0")
      case True
      with assms(2)[OF False, of y] have "\<not> M y" by force
      with Cons.prems True show ?thesis by auto
    next
      case gt: False
      with Cons show ?thesis using \<open>\<not> M x\<close> by auto
    qed
  qed
qed

lemma insert_sorted_falsy_last:
  assumes "\<And>b. M x \<Longrightarrow> (case cmp x b of None \<Rightarrow> 0 | Some c \<Rightarrow> c) > 0"
    and "\<And>b. \<not> M x \<Longrightarrow> M b \<Longrightarrow> (case cmp x b of None \<Rightarrow> 0 | Some c \<Rightarrow> c) \<le> 0"
    and "sorted_wrt (\<lambda>a b. M a \<longrightarrow> M b) ys"
  shows "sorted_wrt (\<lambda>a b. M a \<longrightarrow> M b) (insert_sorted cmp x ys)"
  using assms(3)
proof (induction ys)
  case Nil
  then show ?case by simp
next
  case (Cons y ys)
  show ?case
  proof (cases "M x")
    case True
    with assms(1)[of y] Cons show ?thesis by auto
  next
    case False
    show ?thesis
    proof (cases "(case cmp x y of None \<Rightarrow> 0 | Some c \<Rightarrow> c) \<le> 0")
      case True
      with Cons.prems False show ?thesis by auto
    next
      case gt: False
      with assms(2)[OF False, of y] have "\<not> M y" by force
      with Cons gt show ?thesis by auto
    qed
  qed
qed

lemma array_sort_ascending:
  "sorted_wrt (\<lambda>a b. \<not> truthy (lookup (h b) k) \<longrightarrow> \<not> truthy (lookup (h a) k))
     (array_sort (\<lambda>a b. sort_compare lc k (JNum 1) (h a) (h b)) xs)"
proof (induction xs)
  case Nil
  then show ?case by simp
next
  case (Cons x xs)
  show ?case
    unfolding array_sort.simps
    by (rule insert_sorted_falsy_first[where M = "\<lambda>a. \<not> truthy (lookup (h a) k)", OF _ _ Cons.IH])
      (simp_all add: sort_compare_def to_number_def)
qed

lemma array_sort_descending:
  "sorted_wrt (\<lambda>a b. \<not> truthy (lookup (h a) k) \<longrightarrow> \<not> truthy (lookup (h b) k))
     (array_sort (\<lambda>a b. sort_compare lc k (JNum (- 1)) (h a) (h b)) xs)"
proof (induction xs)
  case Nil
  then show ?case by simp
next
  case (Cons x xs)
  show ?case
    unfolding array_sort.simps
    by (rule insert_sorted_falsy_last[where M = "\<lambda>a. \<not> truthy (lookup (h a) k)", OF _ _ Cons.IH])
      (simp_all add: sort_compare_def to_number_def)
qed

text \<open>
  C5 (documents missing the sort field come last when ascending, first when descending), as
  stated, on the rows \<open>{_id:2, a:2, b:2}\<close>, \<open>{_id:1, a:1}\<close> sorted by \<open>{b: 1}\<close>: the document
  without \<open>b\<close> comes first, before the one that has it. The comparator answers \<open>-val\<close> when
  its first argument lacks the field, which puts that argument first when \<open>val\<close> is 1.
\<close>

theorem sort_ascending_missing_counterexample:
  "sort_r (\<lambda>s t. 0) example_objects (JObj [(''b'', JNum 1)]) \<lparr>length_r = 2, data = [1, 0]\<rparr>
     = Returns \<lparr>length_r = 2, data = [0, 1]\<rparr>
   \<and> map_of (example_objects 0) ''b'' = None
   \<and> map_of (example_objects 1) ''b'' = Some (JNum 2)"
  by (simp add: sort_r_def sort_compare_def example_objects_def get_prop_def to_number_def)

text \<open>
  C5 as amended: for a field name that is not the name of a property every object inherits
  (\<open>toString\<close>, \<open>constructor\<close>, ...), after \<open>sort\<close> on the field with direction \<open>+1\<close> the
  documents whose field is missing or falsy come before all documents whose field is truthy,
  and with direction \<open>-1\<close> they come after them; the cursor holds the same documents as
  before. (Under an inherited name every document has a truthy value, the inherited one, so
  no document counts as missing the field.)
\<close>

theorem sort_missing_first_ascending_last_descending:
  assumes "k \<notin> set object_prototype_names"
  shows "(\<exists>this'. sort_r lc h (JObj [(k, JNum 1)]) this = Returns this'
      \<and> mset (data this') = mset (data this)
      \<and> sorted_wrt (\<lambda>a b. \<not> truthy (lookup (h b) k) \<longrightarrow> \<not> truthy (lookup (h a) k)) (data this'))
   \<and> (\<exists>this'. sort_r lc h (JObj [(k, JNum (- 1))]) this = Returns this'
      \<and> mset (data this') = mset (data this)
      \<and> sorted_wrt (\<lambda>a b. \<not> truthy (lookup (h a) k) \<longrightarrow> \<not> truthy (lookup (h b) k)) (data this'))"
  by (simp add: sort_r_def get_prop_def array_sort_ascending array_sort_descending)

theorem sort_missing_first_ascending_last_descending_witness:
  "\<exists>this'. sort_r (\<lambda>s t. 0) example_objects (JObj [(''b'', JNum 1)]) \<lparr>length_r = 2, data = [1, 0]\<rparr>
       = Returns this'
     \<and> sorted_wrt (\<lambda>a b. \<not> truthy (lookup (example_objects b) ''b'')
                       \<longrightarrow> \<not> truthy (lookup (example_objects a) ''b'')) (data this')"
proof -
  have "''b'' \<notin> set object_prototype_names" by (simp add: object_prototype_names_def)
  from sort_missing_first_ascending_last_descending
    [OF this, of "\<lambda>s t. 0" example_objects "\<lparr>length_r = 2, data = [1, 0]\<rparr>"]
  show ?thesis by blast
qed

subsection \<open>The matchers as filters\<close>

declare or_row.simps [simp del]

lemma matching_rows_OR_Returns:
  assumes "matching_rows_OR h array rows = Returns res"
  shows "res = filter (\<lambda>r. or_row (h r) array = Returns True) rows
       \<and> (\<forall>r \<in> set rows. \<exists>b. or_row (h r) array = Returns b)"
  using assms
proof (induction rows arbitrary: res)
  case Nil
  then show ?case by simp
next
  case (Cons r rows)
  from Cons.prems obtain b where b: "or_row (h r) array = Returns b"
    by (cases "or_row (h r) array") auto
  with Cons.prems obtain res' where r': "matching_rows_OR h array rows = Returns res'"
    by (cases "matching_rows_OR h array rows") auto
  from Cons.IH[OF r'] b r' Cons.prems show ?case by auto
qed

lemma matching_rows_OR_total:
  assumes "\<forall>r \<in> set rows. \<exists>b. or_row (h r) array = Returns b"
  shows "matching_rows_OR h array rows
       = Returns (filter (\<lambda>r. or_row (h r) array = Returns True) rows)"
  using assms
  by (induction rows) auto

lemma conditional_loop_returns:
  assumes "[] \<notin> fst ` set ops"
  shows "conditional_loop h k (JObj ops) rows
       = Some (filter (\<lambda>r. conditional_all k ops (h r)) rows, JObj [])"
  using assms
proof (induction ops arbitrary: rows rule: length_induct)
  case (1 ops)
  show ?case
  proof (cases ops)
    case Nil
    then show ?thesis by (subst conditional_loop.simps) simp
  next
    case (Cons p ops')
    obtain c x where p: "p = (c, x)" by (cases p)
    let ?rest = "filter (\<lambda>(k', _). k' \<noteq> c) ops'"
    let ?rows = "filter (\<lambda>row. conditional_row c \<lparr>test_key = k, test_value = JObj ops\<rparr> (h row)) rows"
    from "1.prems" Cons p have c: "c \<noteq> []" by auto
    have len: "length ?rest < length ops" using Cons by (simp add: less_Suc_eq_le)
    have keys: "[] \<notin> fst ` set ?rest" using "1.prems" Cons by auto
    have "conditional_loop h k (JObj ops) rows = conditional_loop h k (JObj ?rest) ?rows"
      using Cons p c
      by (subst conditional_loop.simps) (simp add: matching_rows_CONDITIONAL_def)
    also have "\<dots> = Some (filter (\<lambda>r. conditional_all k ?rest (h r)) ?rows, JObj [])"
      using "1.IH" len keys by blast
    finally show ?thesis using Cons p by (simp add: conj_commute)
  qed
qed

lemma conditional_loop_diverges:
  assumes "[] \<in> fst ` set ops"
  shows "conditional_loop h k (JObj ops) rows = None"
  using assms
proof (induction ops arbitrary: rows rule: length_induct)
  case (1 ops)
  from "1.prems" obtain p ops' where Cons: "ops = p # ops'" by (cases ops) auto
  obtain c x where p: "p = (c, x)" by (cases p)
  show ?case
  proof (cases "c = []")
    case True
    with Cons p have "firstKey (JObj ops) = Some []" by simp
    with conditional_loop_stuck[of h k "JObj ops" rows] show ?thesis
      by (cases "conditional_loop h k (JObj ops) rows") auto
  next
    case False
    let ?rest = "filter (\<lambda>(k', _). k' \<noteq> c) ops'"
    let ?rows = "filter (\<lambda>row. conditional_row c \<lparr>test_key = k, test_value = JObj ops\<rparr> (h row)) rows"
    have len: "length ?rest < length ops" using Cons by (simp add: less_Suc_eq_le)
    have keys: "[] \<in> fst ` set ?rest" using "1.prems" Cons p False by force
    have "conditional_loop h k (JObj ops) rows = conditional_loop h k (JObj ?rest) ?rows"
      using Cons p False
      by (subst conditional_loop.simps) (simp add: matching_rows_CONDITIONAL_def)
    also have "\<dots> = None" using "1.IH" len keys by blast
    finally show ?thesis .
  qed
qed

lemma conditional_is_object:
  assumes "detect_clause_type k v = CLAUSE_CONDITIONAL"
  obtains ops where "v = JObj ops"
  using assms by (cases v) (auto split: if_splits)

subsection \<open>The clause loop\<close>

lemma and_then_simps [simp]:
  "and_then c None = None"
  "and_then c (Some (Throws e)) = Some (Throws e)"
  "and_then c (Some (Returns (r, cs))) = Some (Returns (r, c # cs))"
  by (simp_all add: and_then_def)

text \<open>When the loop returns, every clause was a filter on the rows that reached it, and each
  CONDITIONAL clause is left with an empty value.\<close>

lemma clause_loop_Returns:
  assumes "clause_loop h cs rows = Some (Returns (res, cs'))"
  shows "res = filter (\<lambda>r. \<forall>c \<in> set cs. clause_row c (h r) = Returns True) rows
       \<and> cs' = map clause_after cs
       \<and> (\<forall>c \<in> set cs. \<not> clause_diverges c)"
  using assms
proof (induction cs arbitrary: rows res cs')
  case Nil
  then show ?case by simp
next
  case (Cons c cs)
  obtain k v where c: "c = (k, v)" by (cases c)
  let ?all = "\<lambda>r. \<forall>c \<in> set cs. clause_row c (h r) = Returns True"
  have step: "\<exists>mid. clause_loop h cs mid = Some (Returns (res, tl cs'))
      \<and> mid = filter (\<lambda>r. clause_row c (h r) = Returns True) rows
      \<and> cs' = clause_after c # tl cs' \<and> \<not> clause_diverges c"
  proof (cases "detect_clause_type k v")
    case CLAUSE_NORMAL
    with Cons.prems c show ?thesis
      by (cases "clause_loop h cs (matching_rows_NORMAL h \<lparr>test_key = k, test_value = v\<rparr> rows)")
        (auto simp: and_then_def clause_row_def clause_after_def clause_diverges_def
          matching_rows_NORMAL_def split: outcome.splits)
  next
    case CLAUSE_CONDITIONAL
    then obtain ops where v: "v = JObj ops" by (rule conditional_is_object)
    show ?thesis
    proof (cases "[] \<in> fst ` set ops")
      case True
      with Cons.prems c v CLAUSE_CONDITIONAL conditional_loop_diverges[OF True, of h k rows]
      show ?thesis by simp
    next
      case False
      with Cons.prems c v CLAUSE_CONDITIONAL conditional_loop_returns[OF False, of h k rows]
      show ?thesis
        by (cases "clause_loop h cs (filter (\<lambda>r. conditional_all k ops (h r)) rows)")
          (auto simp: and_then_def clause_row_def clause_after_def clause_diverges_def
            split: outcome.splits)
    qed
  next
    case CLAUSE_OR
    with Cons.prems c obtain mid where
      mid: "matching_rows_OR h (elements v) rows = Returns mid"
      by (cases "matching_rows_OR h (elements v) rows") auto
    from matching_rows_OR_Returns[OF mid] mid Cons.prems c CLAUSE_OR show ?thesis
      by (cases "clause_loop h cs mid")
        (auto simp: and_then_def clause_row_def clause_after_def clause_diverges_def
          split: outcome.splits)
  next
    case CLAUSE_SUBDOCUMENT_MATCH
    with Cons.prems c show ?thesis
      by (cases "clause_loop h cs rows")
        (auto simp: and_then_def clause_row_def clause_after_def clause_diverges_def
          split: outcome.splits)
  next
    case CLAUSE_SUBDOCUMENT
    with Cons.prems c show ?thesis
      by (cases "clause_loop h cs rows")
        (auto simp: and_then_def clause_row_def clause_after_def clause_diverges_def
          split: outcome.splits)
  next
    case CLAUSE_ARRAY
    with Cons.prems c show ?thesis
      by (cases "clause_loop h cs rows")
        (auto simp: and_then_def clause_row_def clause_after_def clause_diverges_def
          split: outcome.splits)
  next
    case CLAUSE_UNKNOWN
    with Cons.prems c show ?thesis
      by (cases "clause_loop h cs rows")
        (auto simp: and_then_def clause_row_def clause_after_def clause_diverges_def
          split: outcome.splits)
  qed
  then obtain mid where mid: "clause_loop h cs mid = Some (Returns (res, tl cs'))"
    and mid_def: "mid = filter (\<lambda>r. clause_row c (h r) = Returns True) rows"
    and cs': "cs' = clause_after c # tl cs'" and nd: "\<not> clause_diverges c"
    by blast
  from Cons.IH[OF mid] have res: "res = filter ?all mid" and tl: "tl cs' = map clause_after cs"
    and nds: "\<forall>c \<in> set cs. \<not> clause_diverges c" by auto
  have "res = filter (\<lambda>r. \<forall>c \<in> set (c # cs). clause_row c (h r) = Returns True) rows"
    unfolding res mid_def by (simp add: conj_commute)
  moreover have "cs' = map clause_after (c # cs)" using cs' tl by simp
  ultimately show ?case using nd nds by simp
qed






subsection \<open>Queries that are objects\<close>

lemma do_query_JObj:
  "do_query db (JObj cs) =
     (if cs = [] then Some (Returns (master db, JObj []))
      else (case clause_loop (objects db) cs (master db) of
              None \<Rightarrow> None
            | Some (Throws e) \<Rightarrow> Some (Throws e)
            | Some (Returns (res, cs')) \<Rightarrow> Some (Returns (res, JObj cs'))))"
  by (cases cs) (auto simp: do_query_def firstKey_def split: option.splits outcome.splits)


subsection \<open>Sequential narrowing\<close>

lemma rows_of_simps [simp]:
  "rows_of None = None"
  "rows_of (Some (Throws e)) = Some (Throws e)"
  "rows_of (Some (Returns (rows, q))) = Some (Returns rows)"
  by (simp_all add: rows_of_def)

lemma rows_of_and_then [simp]: "rows_of (and_then c x) = rows_of x"
  by (cases x) (auto simp: and_then_def rows_of_def split: outcome.splits)


lemma clauses_of_Cons [simp]:
  "clauses_of vals ((k, r) # cs) = (k, vals ! r) # clauses_of vals cs"
  by (simp add: clauses_of_def)

lemma clauses_of_Nil [simp]: "clauses_of vals [] = []"
  by (simp add: clauses_of_def)





text \<open>The hypothesis that each clause alone evaluates to a result is needed. At
  \<open>{name: 'Paul', $or: [{name: /P/}]}\<close> on the sample collection the query returns the
  document named Paul, since the \<open>$or\<close> clause sees that document only; the \<open>$or\<close> clause on the
  full collection throws at the first document, which has no \<open>name\<close>, and so does the query
  with the two clauses in the other order.\<close>

lemma narrowing_pattern_in_or:
  "do_query example_db
      (JObj [(''name'', JStr ''Paul''), (''$or'', JArr [JObj [(''name'', example_regexp)]])])
     = Some (Returns ([3],
         JObj [(''name'', JStr ''Paul''), (''$or'', JArr [JObj [(''name'', example_regexp)]])]))
   \<and> do_query example_db (JObj [(''$or'', JArr [JObj [(''name'', example_regexp)]])])
     = Some (Throws TypeError)
   \<and> do_query example_db
      (JObj [(''$or'', JArr [JObj [(''name'', example_regexp)]]), (''name'', JStr ''Paul'')])
     = Some (Throws TypeError)"
proof -
  have "or_row (objects example_db 0) [JObj [(''name'', example_regexp)]] = Throws TypeError"
    unfolding example_regexp_def
    by (rule or_row_regexp_throws) (simp_all add: example_db_def example_objects_def)
  then have t: "matching_rows_OR (objects example_db) [JObj [(''name'', example_regexp)]]
      (master example_db) = Throws TypeError"
    by (intro matching_rows_OR_throws[of 0]) (simp_all add: example_db_def)
  have n: "matching_rows_NORMAL (objects example_db)
      \<lparr>test_key = ''name'', test_value = JStr ''Paul''\<rparr> (master example_db) = [3]"
    by (simp add: matching_rows_NORMAL_def example_db_def example_objects_def strict_equals_def)
  have o: "matching_rows_OR (objects example_db) [JObj [(''name'', example_regexp)]] [3]
      = Returns [3]"
    by (simp add: or_row.simps example_regexp_def example_db_def example_objects_def)
  from t n o show ?thesis
    by (simp add: do_query_JObj)
qed




subsection \<open>A consumed CONDITIONAL clause\<close>







subsection \<open>OR against the top-level matchers\<close>

lemma conditional_scan_absent:
  assumes "k \<notin> fst ` set row"
  shows "\<not> conditional_scan cond k operand row"
  using assms by (induction row) auto

lemma conditional_scan_distinct:
  assumes "map_of row k = Some v" and "distinct (map fst row)"
  shows "conditional_scan cond k operand row =
     (if cond = ''$lt'' then js_lt v operand
      else if cond = ''$lte'' then js_lte v operand
      else if cond = ''$gt'' then js_gt v operand
      else if cond = ''$gte'' then js_gte v operand
      else False)"
  using assms
proof (induction row)
  case Nil
  then show ?case by simp
next
  case (Cons p row)
  obtain k' v' where p: "p = (k', v')" by (cases p)
  show ?case
  proof (cases "k' = k")
    case True
    with Cons.prems p have "v' = v" and "k \<notin> fst ` set row" by auto
    with True p show ?thesis by (simp add: conditional_scan_absent)
  next
    case False
    with Cons p show ?thesis by simp
  qed
qed

text \<open>
  C3 (an \<open>$or\<close> of two sub-clauses is the union of what each matches as a top-level clause,
  \<open>$exists\<close> included), at a document whose field \<open>k\<close> holds \<open>0\<close>: the query
  \<open>{$or: [{k: {$exists: true}}, {k: {$gt: 0}}]}\<close> returns the document, because the OR matcher
  tests \<open>row[k] !== undefined\<close>, while neither \<open>{k: {$exists: true}}\<close> (which tests the
  truthiness of \<open>row[k]\<close>) nor \<open>{k: {$gt: 0}}\<close> returns it as a top-level clause.
\<close>

theorem or_exists_differs_from_top_level:
  assumes "row \<in> set (master db)"
    and "map_of (objects db row) k = Some (JNum 0)"
    and "distinct (map fst (objects db row))"
  shows "(\<exists>res q. do_query db (JObj [(''$or'', JArr [JObj [(k, JObj [(''$exists'', JBool True)])],
                                                 JObj [(k, JObj [(''$gt'', JNum 0)])]])])
              = Some (Returns (res, q)) \<and> row \<in> set res)
       \<and> (\<exists>res q. do_query db (JObj [(k, JObj [(''$exists'', JBool True)])])
              = Some (Returns (res, q)) \<and> row \<notin> set res)
       \<and> (\<exists>res q. do_query db (JObj [(k, JObj [(''$gt'', JNum 0)])])
              = Some (Returns (res, q)) \<and> row \<notin> set res)"
proof -
  let ?h = "objects db"
  let ?A = "JObj [(k, JObj [(''$exists'', JBool True)])]"
  let ?B = "JObj [(k, JObj [(''$gt'', JNum 0)])]"
  from assms(2) have lk: "lookup (?h row) k = JNum 0" by (simp add: lookup_def)
  have or_all: "or_row d [?A, ?B] =
      Returns (\<not> strict_equals (lookup d k) JUndef \<or> js_gt (lookup d k) (JNum 0))" for d
    by (simp add: or_row.simps is_operator_def Let_def)
  then have "\<forall>r \<in> set (master db). \<exists>b. or_row (?h r) [?A, ?B] = Returns b" by simp
  from matching_rows_OR_total[OF this] assms(1) lk
  have 1: "\<exists>res q. do_query db (JObj [(''$or'', JArr [?A, ?B])]) = Some (Returns (res, q))
      \<and> row \<in> set res"
    by (simp add: do_query_JObj or_all strict_equals_def)
  have 2: "\<exists>res q. do_query db (JObj [(k, JObj [(''$exists'', JBool True)])])
      = Some (Returns (res, q)) \<and> row \<notin> set res"
    using lk by (simp add: do_query_JObj is_operator_def conditional_loop_returns conditional_row_def)
  have "\<not> conditional_scan ''$gt'' k (JNum 0) (?h row)"
    using conditional_scan_distinct[OF assms(2,3), of "''$gt''" "JNum 0"]
    by (simp add: js_gt_def abstract_lt_def to_number_def)
  then have 3: "\<exists>res q. do_query db (JObj [(k, JObj [(''$gt'', JNum 0)])])
      = Some (Returns (res, q)) \<and> row \<notin> set res"
    by (simp add: do_query_JObj is_operator_def conditional_loop_returns conditional_row_def)
  from 1 2 3 show ?thesis by blast
qed

theorem or_exists_differs_from_top_level_witness:
  "(\<exists>res q. do_query example_zero_db
        (JObj [(''$or'', JArr [JObj [(''a'', JObj [(''$exists'', JBool True)])],
                               JObj [(''a'', JObj [(''$gt'', JNum 0)])]])])
        = Some (Returns (res, q)) \<and> 0 \<in> set res)
   \<and> (\<exists>res q. do_query example_zero_db (JObj [(''a'', JObj [(''$exists'', JBool True)])])
        = Some (Returns (res, q)) \<and> 0 \<notin> set res)"
proof -
  have a: "0 \<in> set (master example_zero_db)" by (simp add: example_zero_db_def)
  have b: "map_of (objects example_zero_db 0) ''a'' = Some (JNum 0)"
    by (simp add: example_zero_db_def)
  have c: "distinct (map fst (objects example_zero_db 0))" by (simp add: example_zero_db_def)
  from or_exists_differs_from_top_level[OF a b c] show ?thesis by blast
qed

subsection \<open>Update\<close>

lemma lookup_set_prop [simp]:
  "lookup (set_prop row k v) k' = (if k' = k then v else lookup row k')"
  by (induction row) auto



lemma update_rows_Cons:
  "update_rows h m do_multi (row # res) =
     (if \<not> do_multi
      then (h(row := fst (apply_set m (h row))), if snd (apply_set m (h row)) then 1 else 0)
      else (fst (update_rows (h(row := fst (apply_set m (h row)))) m do_multi res),
            (if snd (apply_set m (h row)) then 1 else 0)
              + snd (update_rows (h(row := fst (apply_set m (h row)))) m do_multi res)))"
  by (simp add: Let_def split: prod.splits)

lemma update_rows_heap:
  assumes "r \<notin> set rows"
  shows "fst (update_rows h m do_multi rows) r = h r"
  using assms
proof (induction rows arbitrary: h)
  case Nil
  then show ?case by simp
next
  case (Cons row rows)
  define h' where "h' = h(row := fst (apply_set m (h row)))"
  from Cons.prems have "r \<notin> set rows" and "r \<noteq> row" by auto
  then have ih: "fst (update_rows h' m do_multi rows) r = h' r"
    by (intro Cons.IH)
  have hr: "h' r = h r" using \<open>r \<noteq> row\<close> by (simp add: h'_def)
  show ?case
    unfolding update_rows_Cons h'_def[symmetric] using ih hr by (cases do_multi) simp_all
qed






subsection \<open>The evaluation reads the rows of the collection only\<close>

lemma matching_rows_OR_cong:
  assumes "\<forall>a \<in> set rows. h1 a = h2 a"
  shows "matching_rows_OR h1 array rows = matching_rows_OR h2 array rows"
  using assms by (induction rows) (auto split: outcome.splits)

lemma matching_rows_OR_subset:
  assumes "matching_rows_OR h array rows = Returns res"
  shows "set res \<subseteq> set rows"
  using matching_rows_OR_Returns[OF assms] by auto

lemma conditional_loop_cong:
  assumes "\<forall>a \<in> set rows. h1 a = h2 a"
  shows "conditional_loop h1 k (JObj ops) rows = conditional_loop h2 k (JObj ops) rows"
proof (cases "[] \<in> fst ` set ops")
  case True
  then show ?thesis by (simp add: conditional_loop_diverges)
next
  case False
  have "filter (\<lambda>r. conditional_all k ops (h1 r)) rows = filter (\<lambda>r. conditional_all k ops (h2 r)) rows"
    using assms by (intro filter_cong) auto
  with False show ?thesis by (simp add: conditional_loop_returns)
qed

lemma clause_loop_cong:
  assumes "\<forall>a \<in> set rows. h1 a = h2 a"
  shows "clause_loop h1 cs rows = clause_loop h2 cs rows"
  using assms
proof (induction cs arbitrary: rows)
  case Nil
  then show ?case by simp
next
  case (Cons c cs)
  obtain k v where c: "c = (k, v)" by (cases c)
  have IH: "clause_loop h1 cs mid = clause_loop h2 cs mid" if "set mid \<subseteq> set rows" for mid
    using that Cons.prems by (intro Cons.IH) auto
  show ?case
  proof (cases "detect_clause_type k v")
    case CLAUSE_NORMAL
    have "matching_rows_NORMAL h1 \<lparr>test_key = k, test_value = v\<rparr> rows
        = matching_rows_NORMAL h2 \<lparr>test_key = k, test_value = v\<rparr> rows"
      unfolding matching_rows_NORMAL_def using Cons.prems by (intro filter_cong) auto
    moreover have "set (matching_rows_NORMAL h2 \<lparr>test_key = k, test_value = v\<rparr> rows) \<subseteq> set rows"
      by (auto simp: matching_rows_NORMAL_def)
    ultimately show ?thesis using c CLAUSE_NORMAL IH by simp
  next
    case CLAUSE_CONDITIONAL
    then obtain ops where v: "v = JObj ops" by (rule conditional_is_object)
    show ?thesis
    proof (cases "[] \<in> fst ` set ops")
      case True
      with c v CLAUSE_CONDITIONAL show ?thesis by (simp add: conditional_loop_diverges)
    next
      case False
      have "filter (\<lambda>r. conditional_all k ops (h1 r)) rows
          = filter (\<lambda>r. conditional_all k ops (h2 r)) rows"
        using Cons.prems by (intro filter_cong) auto
      with False c v CLAUSE_CONDITIONAL IH[of "filter (\<lambda>r. conditional_all k ops (h2 r)) rows"]
      show ?thesis by (simp add: conditional_loop_returns)
    qed
  next
    case CLAUSE_OR
    have eq: "matching_rows_OR h1 (elements v) rows = matching_rows_OR h2 (elements v) rows"
      using Cons.prems by (rule matching_rows_OR_cong)
    show ?thesis
    proof (cases "matching_rows_OR h2 (elements v) rows")
      case (Returns mid)
      from matching_rows_OR_subset[OF this] IH[of mid] eq Returns c CLAUSE_OR show ?thesis
        by simp
    next
      case (Throws e)
      with eq c CLAUSE_OR show ?thesis by simp
    qed
  next
    case CLAUSE_SUBDOCUMENT_MATCH
    with c IH[of rows] show ?thesis by simp
  next
    case CLAUSE_SUBDOCUMENT
    with c IH[of rows] show ?thesis by simp
  next
    case CLAUSE_ARRAY
    with c IH[of rows] show ?thesis by simp
  next
    case CLAUSE_UNKNOWN
    with c IH[of rows] show ?thesis by simp
  qed
qed

lemma do_query_cong:
  assumes "master db1 = master db2" and "\<forall>a \<in> set (master db1). objects db1 a = objects db2 a"
  shows "do_query db1 q = do_query db2 q"
  using assms clause_loop_cong[of "master db1" "objects db1" "objects db2" "own_props q"]
  by (simp add: do_query_def)

lemma do_query_subset:
  assumes "do_query db q = Some (Returns (res, q'))"
  shows "set res \<subseteq> set (master db)"
proof (cases "\<not> truthy q \<or> (type_of q = T_object \<and> firstKey q = None)")
  case True
  with assms show ?thesis by (auto simp: do_query_def)
next
  case False
  with assms obtain cs' where "clause_loop (objects db) (own_props q) (master db)
      = Some (Returns (res, cs'))"
    by (auto simp: do_query_def split: option.splits outcome.splits)
  from clause_loop_Returns[OF this] show ?thesis by auto
qed

subsection \<open>The cursor holds new objects\<close>

lemma push_simps:
  "fst (push s O') = (fst s)\<lparr>objects := (objects (fst s))(next_addr (fst s) := json_fields (objects (fst s) O')),
                               next_addr := Suc (next_addr (fst s))\<rparr>"
  "data (snd (push s O')) = data (snd s) @ [next_addr (fst s)]"
  "length_r (snd (push s O')) = Suc (length (data (snd s)))"
  by (cases s; simp add: push_def alloc_def)+

lemma foldl_push_frame:
  "master (fst (foldl push s res)) = master (fst s)
   \<and> id_counter (fst (foldl push s res)) = id_counter (fst s)
   \<and> next_addr (fst (foldl push s res)) = next_addr (fst s) + length res
   \<and> (\<forall>a < next_addr (fst s). objects (fst (foldl push s res)) a = objects (fst s) a)
   \<and> data (snd (foldl push s res)) = data (snd s) @ [next_addr (fst s) ..< next_addr (fst s) + length res]"
proof (induction res arbitrary: s)
  case Nil
  then show ?case by simp
next
  case (Cons r res)
  have "[next_addr (fst s) ..< next_addr (fst s) + length (r # res)]
      = next_addr (fst s) # [Suc (next_addr (fst s)) ..< Suc (next_addr (fst s)) + length res]"
    by (simp add: upt_rec)
  with Cons[of "push s r"] show ?case by (simp add: push_simps)
qed

lemma foldl_push_copies:
  assumes "\<forall>r \<in> set res. r < next_addr (fst s)"
  shows "map (objects (fst (foldl push s res))) [next_addr (fst s) ..< next_addr (fst s) + length res]
       = map (\<lambda>r. json_fields (objects (fst s) r)) res"
  using assms
proof (induction res arbitrary: s)
  case Nil
  then show ?case by simp
next
  case (Cons r res)
  let ?s = "push s r"
  have n: "next_addr (fst ?s) = Suc (next_addr (fst s))" by (simp add: push_simps)
  have old: "objects (fst ?s) x = objects (fst s) x" if "x < next_addr (fst s)" for x
    using that by (simp add: push_simps)
  have "\<forall>x \<in> set res. x < next_addr (fst ?s)" using Cons.prems n by auto
  from Cons.IH[OF this]
  have tl: "map (objects (fst (foldl push ?s res)))
        [Suc (next_addr (fst s)) ..< Suc (next_addr (fst s)) + length res]
      = map (\<lambda>x. json_fields (objects (fst s) x)) res"
    using Cons.prems old n by (simp cong: map_cong)
  have "objects (fst (foldl push ?s res)) (next_addr (fst s)) = objects (fst ?s) (next_addr (fst s))"
    using foldl_push_frame[of ?s res] n by simp
  then have hd: "objects (fst (foldl push ?s res)) (next_addr (fst s)) = json_fields (objects (fst s) r)"
    by (simp add: push_simps)
  have "[next_addr (fst s) ..< next_addr (fst s) + length (r # res)]
      = next_addr (fst s) # [Suc (next_addr (fst s)) ..< Suc (next_addr (fst s)) + length res]"
    by (simp add: upt_rec)
  with hd tl show ?case by simp
qed

lemma set_array_splice: "set (array_splice start deleteCount xs) \<subseteq> set xs"
  by (auto simp: array_splice_def Let_def dest: in_set_takeD in_set_dropD)

text \<open>
  C2 (read isolation). On a collection whose rows are allocated objects, a \<open>find\<close> that
  returns leaves the collection as it was; its cursor holds new objects, none of them a row
  of the collection, whose contents are the JSON copies of the matched rows; \<open>limit\<close>,
  \<open>skip\<close> and \<open>sort\<close> yield cursors over objects of that cursor only; and in any store
  that differs from the one after \<open>find\<close> only at objects of the cursor (whatever was
  written into them), every query evaluates as it did before the \<open>find\<close>, and \<open>find\<close> with
  the same query returns a cursor with the contents the first one had when it was made.
\<close>

theorem find_read_isolation:
  assumes "\<forall>a \<in> set (master db). a < next_addr db"
    and "find_db db q = Some (db', Returns (cur, q'))"
  shows "master db' = master db \<and> id_counter db' = id_counter db
       \<and> (\<forall>a \<in> set (master db). objects db' a = objects db a)
       \<and> set (data cur) \<inter> set (master db) = {}
       \<and> (\<exists>res. do_query db q = Some (Returns (res, q'))
             \<and> map (objects db') (data cur) = map (\<lambda>r. json_fields (objects db r)) res)
       \<and> set (data (limit n cur)) \<subseteq> set (data cur)
       \<and> set (data (skip n cur)) \<subseteq> set (data cur)
       \<and> (\<forall>cur'. sort_r lc (objects db') O' cur = Returns cur' \<longrightarrow> set (data cur') = set (data cur))
       \<and> (\<forall>h. (\<forall>a. a \<notin> set (data cur) \<longrightarrow> h a = objects db' a) \<longrightarrow>
             (\<forall>a \<in> set (master db). h a = objects db a)
             \<and> (\<forall>q2. do_query (db'\<lparr>objects := h\<rparr>) q2 = do_query db q2)
             \<and> (\<exists>db2 cur2. find_db (db'\<lparr>objects := h\<rparr>) q = Some (db2, Returns (cur2, q'))
                   \<and> map (objects db2) (data cur2) = map (objects db') (data cur)))"
proof -
  from assms(2) obtain res where q: "do_query db q = Some (Returns (res, q'))"
    and new: "new_db_result db res = (db', cur)"
    by (auto simp: find_db_def split: option.splits outcome.splits prod.splits)
  let ?s = "(db, \<lparr>length_r = 0, data = []\<rparr>)"
  from new have db': "db' = fst (foldl push ?s res)" and cur: "cur = snd (foldl push ?s res)"
    by (simp_all add: new_db_result_def)
  note frame = foldl_push_frame[of ?s res, folded db' cur, simplified]
  from do_query_subset[OF q] assms(1) have res_old: "\<forall>r \<in> set res. r < next_addr db" by auto
  have data: "data cur = [next_addr db ..< next_addr db + length res]" using frame by simp
  have copies: "map (objects db') (data cur) = map (\<lambda>r. json_fields (objects db r)) res"
    using foldl_push_copies[of res ?s, folded db'] res_old data by simp
  have 1: "master db' = master db \<and> id_counter db' = id_counter db" using frame by simp
  have 2: "\<forall>a \<in> set (master db). objects db' a = objects db a" using frame assms(1) by simp
  have 3: "set (data cur) \<inter> set (master db) = {}" using data assms(1) by fastforce
  have 4: "set (data (limit n cur)) \<subseteq> set (data cur)" "set (data (skip n cur)) \<subseteq> set (data cur)"
    by (simp_all add: limit_def skip_def Let_def set_array_splice)
  have 5: "\<forall>cur'. sort_r lc (objects db') O' cur = Returns cur' \<longrightarrow> set (data cur') = set (data cur)"
    by (auto simp: sort_r_def Let_def mset_eq_setD[OF mset_array_sort] split: outcome.splits)
  have 6: "(\<forall>a \<in> set (master db). h a = objects db a)
      \<and> (\<forall>q2. do_query (db'\<lparr>objects := h\<rparr>) q2 = do_query db q2)
      \<and> (\<exists>db2 cur2. find_db (db'\<lparr>objects := h\<rparr>) q = Some (db2, Returns (cur2, q'))
            \<and> map (objects db2) (data cur2) = map (objects db') (data cur))"
    if h: "\<forall>a. a \<notin> set (data cur) \<longrightarrow> h a = objects db' a" for h
  proof -
    let ?db = "db'\<lparr>objects := h\<rparr>"
    have a: "\<forall>a \<in> set (master db). h a = objects db a" using h 2 3 by auto
    have b: "do_query ?db q2 = do_query db q2" for q2
      using a 1 by (intro do_query_cong) simp_all
    let ?t = "(?db, \<lparr>length_r = 0, data = []\<rparr>)"
    have n: "next_addr ?db = next_addr db + length res" using frame by simp
    have "\<forall>r \<in> set res. r < next_addr (fst ?t)" using res_old n by auto
    from foldl_push_copies[OF this] foldl_push_frame[of ?t res]
    have "map (objects (fst (foldl push ?t res))) (data (snd (foldl push ?t res)))
        = map (\<lambda>r. json_fields (h r)) res" by simp
    also have "\<dots> = map (\<lambda>r. json_fields (objects db r)) res"
      using a do_query_subset[OF q] by (intro map_cong) auto
    finally have "map (objects (fst (foldl push ?t res))) (data (snd (foldl push ?t res)))
        = map (objects db') (data cur)" using copies by simp
    moreover have "find_db ?db q = Some (fst (foldl push ?t res), Returns (snd (foldl push ?t res), q'))"
      using b[of q] q by (simp add: find_db_def new_db_result_def split: prod.splits)
    ultimately show ?thesis using a b by blast
  qed
  from 1 2 3 4 5 6 q copies show ?thesis by blast
qed

theorem find_read_isolation_witness:
  "\<exists>db2 cur2. find_db
       ((fst (the (find_db example_db (JObj [(''a'', JNum 2)]))))
          \<lparr>objects := (objects (fst (the (find_db example_db (JObj [(''a'', JNum 2)])))))
                         (4 := [(''a'', JNum 77)])\<rparr>)
       (JObj [(''a'', JNum 2)]) = Some (db2, Returns (cur2, JObj [(''a'', JNum 2)]))
     \<and> map (objects db2) (data cur2) = [[(''_id'', JNum 2), (''a'', JNum 2), (''b'', JNum 2)]]"
proof -
  let ?q = "JObj [(''a'', JNum 2)]"
  let ?db' = "example_db\<lparr>objects := (objects example_db)
                 (4 := [(''_id'', JNum 2), (''a'', JNum 2), (''b'', JNum 2)]), next_addr := 5\<rparr>"
  let ?cur = "\<lparr>length_r = 1, data = [4]\<rparr>"
  have wf: "\<forall>a \<in> set (master example_db). a < next_addr example_db"
    by (simp add: example_db_def)
  have f: "find_db example_db ?q = Some (?db', Returns (?cur, ?q))"
    by (simp add: find_db_def do_query_JObj matching_rows_NORMAL_def new_db_result_def push_def
        alloc_def example_db_def example_objects_def strict_equals_def)
  let ?h = "(objects ?db')(4 := [(''a'', JNum 77)])"
  have h: "\<forall>a. a \<notin> set (data ?cur) \<longrightarrow> ?h a = objects ?db' a" by simp
  from find_read_isolation[OF wf f] h
  have "\<exists>db2 cur2. find_db (?db'\<lparr>objects := ?h\<rparr>) ?q = Some (db2, Returns (cur2, ?q))
      \<and> map (objects db2) (data cur2) = map (objects ?db') (data ?cur)"
    by blast
  then show ?thesis by (simp add: f)
qed

subsection \<open>The id counter\<close>


lemma incr_JNum [simp]: "incr (JNum n) = JNum (double_succ n)"
  by (simp add: incr_def to_number_def of_number_def)

lemma js_gt_JNum [simp]: "js_gt (JNum i) (JNum j) = (j < i)"
  by (simp add: js_gt_def abstract_lt_def to_number_def)


lemma id_fresh_bounded: "id_fresh c c' row \<Longrightarrow> 0 \<le> c' \<Longrightarrow> id_bounded c' row"
  by (auto simp: id_fresh_def id_bounded_def split: jsval.splits)







lemma lookup_in_keys: "(k \<in> fst ` set obj) = (map_of obj k \<noteq> None)"
  by (simp add: map_of_eq_None_iff)





subsubsection \<open>Loading\<close>




subsubsection \<open>One operation\<close>


lemma id_bounded_cong: "id_of row' = id_of row \<Longrightarrow> id_bounded c row' = id_bounded c row"
  by (simp add: id_bounded_def)




















text \<open>
  The counter is a double. A store opened on the snapshot \<open>[{_id: 2^53}]\<close> has the counter
  \<open>2^53\<close>, where \<open>++\<close> no longer advances: \<open>insert({a: 1})\<close> gives the new document the \<open>_id\<close>
  \<open>2^53\<close>, which the loaded document has.
\<close>

lemma insert_at_counter_limit_repeats_id:
  "id_counter (open_db [[(''_id'', JNum 9007199254740992)]]) = JNum 9007199254740992
   \<and> map (\<lambda>a. id_of (objects (fst (insert_db (open_db [[(''_id'', JNum 9007199254740992)]])
                                     (JObj [(''a'', JNum 1)]))) a))
        (master (fst (insert_db (open_db [[(''_id'', JNum 9007199254740992)]])
                        (JObj [(''a'', JNum 1)]))))
      = [JNum 9007199254740992, JNum 9007199254740992]"
  by (simp add: open_db_def finish_db_setup_def insert_db_def insert_one_def alloc_def id_of_def
      addToFront_def double_succ_def)



end
